theory Spec2Isabelle
  imports Main "HOL-Library.Word"
begin

section \<open>JavaScript strings\<close>

text \<open>
  A JavaScript string is a sequence of UTF-16 code units. \<open>js\<close> embeds an ASCII
  literal; code units beyond ASCII are written as numerals.
\<close>

type_synonym jschar = "16 word"
type_synonym jsstring = "jschar list"

definition js :: "string \<Rightarrow> jsstring" where
  "js s = map of_char s"

text \<open>
  The line terminators of ECMAScript: the characters that \<open>.\<close> in a regular expression
  (without the \<open>s\<close> flag) does not match.
\<close>

definition isLineTerminator :: "jschar \<Rightarrow> bool" where
  "isLineTerminator c = (c = 0x000A \<or> c = 0x000D \<or> c = 0x2028 \<or> c = 0x2029)"

text \<open>The characters removed by \<open>String.prototype.trim\<close>: white space and line terminators.\<close>

definition isWhiteSpace :: "jschar \<Rightarrow> bool" where
  "isWhiteSpace c =
     (c = 0x0009 \<or> c = 0x000A \<or> c = 0x000B \<or> c = 0x000C \<or> c = 0x000D \<or> c = 0x0020
      \<or> c = 0x00A0 \<or> c = 0x1680 \<or> (0x2000 \<le> c \<and> c \<le> 0x200A)
      \<or> c = 0x2028 \<or> c = 0x2029 \<or> c = 0x202F \<or> c = 0x205F \<or> c = 0x3000 \<or> c = 0xFEFF)"

definition trim :: "jsstring \<Rightarrow> jsstring" where
  "trim s = rev (dropWhile isWhiteSpace (rev (dropWhile isWhiteSpace s)))"

text \<open>
  \<open>s.split(sep)\<close> for a one-character separator: the pieces between the separators, so
  an empty string gives one empty piece and a trailing separator a last empty piece.
\<close>

fun split :: "jschar \<Rightarrow> jsstring \<Rightarrow> jsstring list" where
  "split sep [] = [[]]"
| "split sep (c # cs) =
     (if c = sep then [] # split sep cs
      else (case split sep cs of [] \<Rightarrow> [[c]] | l # ls \<Rightarrow> (c # l) # ls))"

definition endsWith :: "jsstring \<Rightarrow> jsstring \<Rightarrow> bool" where
  "endsWith s suffix = (length suffix \<le> length s \<and> drop (length s - length suffix) s = suffix)"

section \<open>Board parser\<close>

text \<open>
  \<open>line.match(/^## (.+)$/)\<close>: the pattern has no \<open>m\<close> flag, so it is anchored at both
  ends of the line; the line must be \<open>## \<close> followed by one or more characters none of
  which is a line terminator. The result is capture group 1, or \<open>None\<close> for \<open>null\<close>.
\<close>

definition headingMatch :: "jsstring \<Rightarrow> jsstring option" where
  "headingMatch line =
     (if take 3 line = js ''## '' \<and> drop 3 line \<noteq> []
         \<and> list_all (\<lambda>c. \<not> isLineTerminator c) (drop 3 line)
      then Some (drop 3 line) else None)"

text \<open>
  \<open>/\[\[([^\]]+)\]\]/\<close> tried at the start of \<open>s\<close>: two opening brackets, the longest
  non-empty run of characters other than \<open>]\<close>, two closing brackets. The run is followed
  by \<open>]\<close> or by the end of \<open>s\<close>, so no shorter run can match.
\<close>

definition linkAt :: "jsstring \<Rightarrow> jsstring option" where
  "linkAt s =
     (if take 2 s = js ''[[''
      then (let target = takeWhile (\<lambda>c. c \<noteq> 0x5D) (drop 2 s);
                after = dropWhile (\<lambda>c. c \<noteq> 0x5D) (drop 2 s)
            in if target \<noteq> [] \<and> take 2 after = js '']]'' then Some target else None)
      else None)"

text \<open>\<open>line.match(/\[\[([^\]]+)\]\]/)\<close>: the match at the leftmost position that has one.\<close>

fun linkMatch :: "jsstring \<Rightarrow> jsstring option" where
  "linkMatch [] = None"
| "linkMatch (c # cs) =
     (case linkAt (c # cs) of Some target \<Rightarrow> Some target | None \<Rightarrow> linkMatch cs)"

record update =
  linkPath :: jsstring
  columnName :: jsstring

text \<open>A string is truthy when it is neither \<open>null\<close> nor empty.\<close>

fun truthy :: "jsstring option \<Rightarrow> bool" where
  "truthy None = False"
| "truthy (Some s) = (s \<noteq> [])"

text \<open>
  One iteration of the loop of \<open>parseBoardContent\<close>, on the pair of its two local
  variables \<open>updates\<close> and \<open>currentColumn\<close>.
\<close>

fun parseLine :: "update list \<times> jsstring option \<Rightarrow> jsstring \<Rightarrow> update list \<times> jsstring option" where
  "parseLine (updates, currentColumn) line =
     (case headingMatch line of
        Some h \<Rightarrow> (updates, Some (trim h))
      | None \<Rightarrow>
          (if truthy currentColumn
           then (case linkMatch line of
                   Some target \<Rightarrow>
                     (updates @ [\<lparr>linkPath = target, columnName = the currentColumn\<rparr>],
                      currentColumn)
                 | None \<Rightarrow> (updates, currentColumn))
           else (updates, currentColumn)))"

definition parseBoardContent :: "jsstring \<Rightarrow> update list" where
  "parseBoardContent content = fst (foldl parseLine ([], None) (split 0x0A content))"

section \<open>Column policy\<close>

text \<open>
  The values a frontmatter field or a local variable of \<open>updateNote\<close> can hold.
  \<open>JOther\<close> stands for every value that is neither undefined, null, a boolean nor a
  string (numbers, arrays, objects, functions); under \<open>!==\<close> such a value differs from
  every string and every boolean.
\<close>

datatype jsvalue = JUndefined | JNull | JBool bool | JString jsstring | JOther nat

record quadrant =
  urgent :: bool
  important :: bool

text \<open>
  The own properties of the object literal \<open>QUADRANT_MAP\<close>. The keys are the strings of
  the source file, decoded as UTF-8, in UTF-16 code units; each starts with a decorative
  symbol and a space.
\<close>

definition QUADRANT_MAP :: "(jsstring \<times> quadrant) list" where
  "QUADRANT_MAP =
     [([0xE2, 0x161, 0xAA] @ js '' Eliminate (NI & NU)'', \<lparr>urgent = False, important = False\<rparr>),
      ([0xF0, 0x178, 0x178, 0xA0] @ js '' Delegate (NI & U)'', \<lparr>urgent = True, important = False\<rparr>),
      ([0xF0, 0x178, 0x178, 0xA1] @ js '' Schedule (I & NU)'', \<lparr>urgent = False, important = True\<rparr>),
      ([0xF0, 0x178, 0x201D, 0xB4] @ js '' Do First (I & U)'', \<lparr>urgent = True, important = True\<rparr>)]"

text \<open>
  \<open>QUADRANT_MAP\<close> is an ordinary object, so its prototype is \<open>Object.prototype\<close>, whose
  properties it inherits. These are the property names of \<open>Object.prototype\<close>
  (ECMAScript, with Annex B); the value of each is a function, or an object for
  \<open>__proto__\<close>, and has no property \<open>urgent\<close> or \<open>important\<close>.
\<close>

definition Object_prototype :: "jsstring list" where
  "Object_prototype =
     [js ''constructor'', js ''hasOwnProperty'', js ''isPrototypeOf'',
      js ''propertyIsEnumerable'', js ''toLocaleString'', js ''toString'', js ''valueOf'',
      js ''__proto__'', js ''__defineGetter__'', js ''__defineSetter__'',
      js ''__lookupGetter__'', js ''__lookupSetter__'']"

text \<open>\<open>columnName in QUADRANT_MAP\<close>: the operator \<open>in\<close> looks through the prototype chain.\<close>

definition isQuadrant :: "jsstring \<Rightarrow> bool" where
  "isQuadrant col =
     (col \<in> set (map fst QUADRANT_MAP) \<or> col \<in> set Object_prototype)"

text \<open>
  \<open>QUADRANT_MAP[columnName].urgent\<close> and \<open>.important\<close>, read where \<open>isQuadrant\<close> holds:
  the boolean of the table for an own key, \<open>undefined\<close> for an inherited one.
\<close>

definition q_urgent :: "jsstring \<Rightarrow> jsvalue" where
  "q_urgent col =
     (case map_of QUADRANT_MAP col of Some q \<Rightarrow> JBool (urgent q) | None \<Rightarrow> JUndefined)"

definition q_important :: "jsstring \<Rightarrow> jsvalue" where
  "q_important col =
     (case map_of QUADRANT_MAP col of Some q \<Rightarrow> JBool (important q) | None \<Rightarrow> JUndefined)"

text \<open>\<open>const status = isQuadrant ? 'backlog' : columnName\<close>\<close>

definition status :: "jsstring \<Rightarrow> jsstring" where
  "status col = (if isQuadrant col then js ''backlog'' else col)"

definition ARCHIVE_STATUSES :: "jsstring set" where
  "ARCHIVE_STATUSES = {js ''done'', js ''archive''}"

section \<open>Plugin state and host\<close>

record KSUSettings =
  statusPropertyName :: jsstring
  showNotifications :: bool
  debugMode :: bool

type_synonym frontmatter = "jsstring \<rightharpoonup> jsvalue"

text \<open>
  A note of the vault: its path and the frontmatter the metadata cache holds for it
  (\<open>None\<close> when the cache has no entry or the note has no frontmatter). A \<open>TFile\<close> is the
  index of its note in \<open>files\<close>; it keeps its identity when the note is renamed.
\<close>

record tfile =
  path :: jsstring
  frontmatter :: "frontmatter option"

text \<open>The calls the plugin makes on the host, in order; message texts are left out.\<close>

datatype call =
    ProcessFrontMatter nat
  | CreateFolder jsstring
  | RenameFile nat jsstring
  | Notice
  | ConsoleLog
  | ConsoleError

record state =
  settings :: KSUSettings
  isUpdating :: bool
  boardPaths :: "jsstring set"
  files :: "tfile list"
  folders :: "jsstring set"
  calls :: "call list"

text \<open>
  Modelled from the spec: the document store of the host (\<open>readText\<close>,
  \<open>resolveLinkTarget\<close>, \<open>mutateMetadata\<close>, \<open>createFolder\<close>, \<open>move\<close>), here
  what the host decides: the text of a file (\<open>None\<close> when reading fails), the note a link
  text resolves to, and which of its operations fail. A failure may depend on the whole
  state, so also on the calls made so far.
\<close>

record host =
  readText :: "state \<Rightarrow> nat \<Rightarrow> jsstring option"
  resolveLinkTarget :: "jsstring \<Rightarrow> nat option"
  mutateMetadataFails :: "state \<Rightarrow> nat \<Rightarrow> bool"
  createFolderFails :: "state \<Rightarrow> jsstring \<Rightarrow> bool"
  moveFails :: "state \<Rightarrow> nat \<Rightarrow> jsstring \<Rightarrow> bool"

text \<open>An awaited call either returns or throws; both leave a state behind.\<close>

datatype completion = Returns state | Throws state

fun andThen :: "completion \<Rightarrow> (state \<Rightarrow> completion) \<Rightarrow> completion" where
  "andThen (Returns s) f = f s"
| "andThen (Throws s) f = Throws s"

fun stateOf :: "completion \<Rightarrow> state" where
  "stateOf (Returns s) = s"
| "stateOf (Throws s) = s"

definition called :: "call \<Rightarrow> state \<Rightarrow> state" where
  "called c s = s\<lparr>calls := calls s @ [c]\<rparr>"

text \<open>Modelled from the spec: \<open>resolveLinkTarget(text) \<rightarrow> id|null\<close>, the host's
  \<open>metadataCache.getFirstLinkpathDest(notePath, '')\<close>; the result is a note of the vault.\<close>

definition getFirstLinkpathDest :: "host \<Rightarrow> state \<Rightarrow> jsstring \<Rightarrow> nat option" where
  "getFirstLinkpathDest h s notePath =
     (case resolveLinkTarget h notePath of
        None \<Rightarrow> None
      | Some file \<Rightarrow> if file < length (files s) then Some file else None)"

text \<open>Modelled from the spec: \<open>getMetadata(id) \<rightarrow> map|null\<close>, the host's
  \<open>metadataCache.getFileCache(file)?.frontmatter\<close>.\<close>

definition getFileCache :: "state \<Rightarrow> nat \<Rightarrow> frontmatter option" where
  "getFileCache s file = frontmatter (files s ! file)"

text \<open>Modelled from the spec: \<open>mutateMetadata(id, fn)\<close> applies a transform to the metadata
  record, the host's \<open>fileManager.processFrontMatter(file, fn)\<close>; a note without
  frontmatter starts from the empty record. When the host fails nothing is written.\<close>

fun theRecord :: "frontmatter option \<Rightarrow> frontmatter" where
  "theRecord None = Map.empty"
| "theRecord (Some fm) = fm"

definition processFrontMatter :: "host \<Rightarrow> state \<Rightarrow> nat \<Rightarrow> (frontmatter \<Rightarrow> frontmatter) \<Rightarrow> completion" where
  "processFrontMatter h s file fn =
     (let s1 = called (ProcessFrontMatter file) s
      in if mutateMetadataFails h s file then Throws s1
         else Returns (s1\<lparr>files := (files s1)[file := (files s1 ! file)
                \<lparr>frontmatter := Some (fn (theRecord (frontmatter (files s1 ! file))))\<rparr>]\<rparr>))"

text \<open>Modelled from the spec: the host's \<open>vault.getAbstractFileByPath(path)\<close> is not null
  when a folder or a note has that path.\<close>

definition getAbstractFileByPath :: "state \<Rightarrow> jsstring \<Rightarrow> bool" where
  "getAbstractFileByPath s p = (p \<in> folders s \<or> p \<in> set (map path (files s)))"

text \<open>Modelled from the spec: \<open>createFolder(path)\<close>.\<close>

definition createFolder :: "host \<Rightarrow> state \<Rightarrow> jsstring \<Rightarrow> completion" where
  "createFolder h s p =
     (let s1 = called (CreateFolder p) s
      in if createFolderFails h s p then Throws s1
         else Returns (s1\<lparr>folders := insert p (folders s1)\<rparr>))"

text \<open>Modelled from the spec: \<open>move(id, newPath)\<close>, the host's
  \<open>fileManager.renameFile(file, newPath)\<close>. When the host fails the note stays.\<close>

definition renameFile :: "host \<Rightarrow> state \<Rightarrow> nat \<Rightarrow> jsstring \<Rightarrow> completion" where
  "renameFile h s file newPath =
     (let s1 = called (RenameFile file newPath) s
      in if moveFails h s file newPath then Throws s1
         else Returns (s1\<lparr>files := (files s1)[file := (files s1 ! file)\<lparr>path := newPath\<rparr>]\<rparr>))"

text \<open>The part of a path before its last slash; the vault root \<open>/\<close> when it has none.\<close>

definition dirname :: "jsstring \<Rightarrow> jsstring" where
  "dirname p =
     (if 0x2F \<in> set p then rev (tl (dropWhile (\<lambda>c. c \<noteq> 0x2F) (rev p))) else js ''/'')"

text \<open>Modelled from the spec: \<open>file.parent?.path\<close>, the path of the folder that holds the
  note. A note of the vault always has a parent folder.\<close>

definition parent_path :: "tfile \<Rightarrow> jsstring option" where
  "parent_path f = Some (dirname (path f))"

text \<open>Modelled from the spec: \<open>file.name\<close>, the path after its last slash.\<close>

definition name :: "tfile \<Rightarrow> jsstring" where
  "name f = rev (takeWhile (\<lambda>c. c \<noteq> 0x2F) (rev (path f)))"

text \<open>\<open>this.log(message)\<close> and the optional \<open>new Notice(message, 3000)\<close>.\<close>

definition log :: "state \<Rightarrow> state" where
  "log s = (if debugMode (settings s) then called ConsoleLog s else s)"

definition notify :: "state \<Rightarrow> state" where
  "notify s = (if showNotifications (settings s) then called Notice s else s)"

text \<open>Modelled from the spec: \<open>readText(id) \<rightarrow> string\<close>, the host's
  \<open>vault.cachedRead(file)\<close>.\<close>

definition cachedRead :: "host \<Rightarrow> state \<Rightarrow> nat \<Rightarrow> jsstring option" where
  "cachedRead h s file = readText h s file"

section \<open>Placement\<close>

definition archiveNote :: "host \<Rightarrow> state \<Rightarrow> nat \<Rightarrow> completion" where
  "archiveNote h s file =
     (case parent_path (files s ! file) of
        None \<Rightarrow> Returns s
      | Some parentDir \<Rightarrow>
          if parentDir = [] then Returns s
          else if \<not> endsWith parentDir (js ''/tasks'') \<and> parentDir \<noteq> js ''tasks'' then Returns s
          else
            (let archivePath = parentDir @ js ''/archive'';
                 newPath = archivePath @ js ''/'' @ name (files s ! file)
             in andThen
                  (if \<not> getAbstractFileByPath s archivePath then createFolder h s archivePath
                   else Returns s)
                  (\<lambda>s1. andThen (renameFile h s1 file newPath)
                  (\<lambda>s2. Returns (notify (log s2))))))"

text \<open>\<open>parentDir.replace(/\/archive$/, '')\<close>\<close>

definition stripArchive :: "jsstring \<Rightarrow> jsstring" where
  "stripArchive parentDir =
     (if endsWith parentDir (js ''/archive'')
      then take (length parentDir - length (js ''/archive'')) parentDir else parentDir)"

definition unarchiveNote :: "host \<Rightarrow> state \<Rightarrow> nat \<Rightarrow> completion" where
  "unarchiveNote h s file =
     (case parent_path (files s ! file) of
        None \<Rightarrow> Returns s
      | Some parentDir \<Rightarrow>
          if parentDir = [] \<or> \<not> endsWith parentDir (js ''/tasks/archive'') then Returns s
          else
            (let tasksPath = stripArchive parentDir;
                 newPath = tasksPath @ js ''/'' @ name (files s ! file)
             in andThen (renameFile h s file newPath)
                  (\<lambda>s1. Returns (notify (log s1)))))"

text \<open>
  The last statement of the \<open>try\<close> block of \<open>updateNote\<close>, which the spec calls the
  placement resolver: archive when the new status is archival, restore otherwise.
\<close>

definition resolvePlacement :: "host \<Rightarrow> state \<Rightarrow> nat \<Rightarrow> jsstring \<Rightarrow> completion" where
  "resolvePlacement h s file newStatus =
     (if newStatus \<in> ARCHIVE_STATUSES then archiveNote h s file else unarchiveNote h s file)"

section \<open>Sync engine\<close>

text \<open>
  The frontmatter record is a plain object, given here by its own properties. \<open>fm[key]\<close>
  reads the own property of that name; when there is none it reads what the object
  inherits from \<open>Object.prototype\<close>, a function or (for \<open>__proto__\<close>) an object, and
  \<open>undefined\<close> for every other name.
\<close>

definition getField :: "frontmatter \<Rightarrow> jsstring \<Rightarrow> jsvalue" where
  "getField fm key =
     (case fm key of
        Some v \<Rightarrow> v
      | None \<Rightarrow> if key \<in> set Object_prototype then JOther 0 else JUndefined)"

text \<open>
  \<open>fm[key] = v\<close> for a value that is a string, a boolean or \<open>undefined\<close>, which are the
  values \<open>updateNote\<close> assigns. The assignment sets an own property, with one exception:
  the key \<open>__proto__\<close>, when it is not an own property, reaches the setter inherited from
  \<open>Object.prototype\<close>, which ignores a value that is neither an object nor \<open>null\<close>, so
  that nothing is stored.
\<close>

definition setField :: "frontmatter \<Rightarrow> jsstring \<Rightarrow> jsvalue \<Rightarrow> frontmatter" where
  "setField fm key v = (if key = js ''__proto__'' \<and> fm key = None then fm else fm(key \<mapsto> v))"

text \<open>\<open>cache?.frontmatter?.[key] ?? null\<close>: a missing or undefined field reads as \<open>null\<close>.\<close>

definition fieldOrNull :: "frontmatter option \<Rightarrow> jsstring \<Rightarrow> jsvalue" where
  "fieldOrNull cache key =
     (case cache of
        None \<Rightarrow> JNull
      | Some fm \<Rightarrow> (case getField fm key of JUndefined \<Rightarrow> JNull | v \<Rightarrow> v))"

definition needsUpdate :: "KSUSettings \<Rightarrow> jsstring \<Rightarrow> frontmatter option \<Rightarrow> bool" where
  "needsUpdate st col cache =
     (let oldStatus = fieldOrNull cache (statusPropertyName st);
          oldUrgent = fieldOrNull cache (js ''urgent'');
          oldImportant = fieldOrNull cache (js ''important'');
          changed = (oldStatus \<noteq> JString (status col))
      in if isQuadrant col
         then changed \<or> oldUrgent \<noteq> q_urgent col \<or> oldImportant \<noteq> q_important col
         else changed)"

text \<open>The function that \<open>updateNote\<close> hands to \<open>processFrontMatter\<close>.\<close>

definition writeFields :: "KSUSettings \<Rightarrow> jsstring \<Rightarrow> frontmatter \<Rightarrow> frontmatter" where
  "writeFields st col fm =
     (let fm1 = setField fm (statusPropertyName st) (JString (status col))
      in if isQuadrant col
         then setField (setField fm1 (js ''urgent'') (q_urgent col))
                (js ''important'') (q_important col)
         else fm1)"

text \<open>The \<open>try\<close> block of \<open>updateNote\<close>.\<close>

definition updateNoteTry :: "host \<Rightarrow> state \<Rightarrow> jsstring \<Rightarrow> jsstring \<Rightarrow> completion" where
  "updateNoteTry h s notePath col =
     (case getFirstLinkpathDest h s notePath of
        None \<Rightarrow> Returns s
      | Some file \<Rightarrow>
          if \<not> needsUpdate (settings s) col (getFileCache s file) then Returns s
          else andThen (processFrontMatter h s file (writeFields (settings s) col))
                 (\<lambda>s1. resolvePlacement h (notify (log s1)) file (status col)))"

text \<open>\<open>updateNote\<close>: the \<open>catch\<close> clause reports the error on the console and returns.\<close>

definition updateNote :: "host \<Rightarrow> state \<Rightarrow> jsstring \<Rightarrow> jsstring \<Rightarrow> completion" where
  "updateNote h s notePath col =
     (case updateNoteTry h s notePath col of
        Returns s1 \<Rightarrow> Returns s1
      | Throws s1 \<Rightarrow> Returns (called ConsoleError s1))"

text \<open>
  The \<open>for\<close> loop of \<open>syncBoard\<close>. Each call is awaited, so a call that threw would end
  the loop and leave \<open>syncBoard\<close> by the exception.
\<close>

fun updateAll :: "host \<Rightarrow> state \<Rightarrow> update list \<Rightarrow> completion" where
  "updateAll h s [] = Returns s"
| "updateAll h s (u # us) =
     andThen (updateNote h s (linkPath u) (columnName u)) (\<lambda>s1. updateAll h s1 us)"

definition syncBoard :: "host \<Rightarrow> state \<Rightarrow> nat \<Rightarrow> completion" where
  "syncBoard h s file =
     (case cachedRead h s file of
        None \<Rightarrow> Throws s
      | Some content \<Rightarrow>
          (let updates = parseBoardContent content
           in if length updates = 0 then Returns s
              else andThen (updateAll h (s\<lparr>isUpdating := True\<rparr>) updates)
                     (\<lambda>s1. Returns (s1\<lparr>isUpdating := False\<rparr>))))"

section \<open>Events and suspended runs\<close>

text \<open>
  \<open>syncBoard\<close> is asynchronous: the handler of \<open>modify\<close> starts it and returns, and the
  run is suspended at each \<open>await\<close>, where the host may deliver further events. A run is
  suspended either in \<open>cachedRead\<close>, before the flag is set, or in the loop, with the
  updates that remain. \<open>updateNote\<close> touches neither \<open>isUpdating\<close> nor \<open>boardPaths\<close>, so
  each call is taken as one step.
\<close>

datatype task = AwaitsRead nat | AwaitsUpdate "update list"

datatype tabstractfile = TFile nat | TFolder jsstring

datatype event = Modify tabstractfile | Resume nat

type_synonym world = "state \<times> task list"

text \<open>\<open>file instanceof TFile\<close>, for a file of the vault.\<close>

fun instanceofTFile :: "state \<Rightarrow> tabstractfile \<Rightarrow> bool" where
  "instanceofTFile s (TFile file) = (file < length (files s))"
| "instanceofTFile s (TFolder p) = False"

fun pathOf :: "state \<Rightarrow> tabstractfile \<Rightarrow> jsstring" where
  "pathOf s (TFile file) = path (files s ! file)"
| "pathOf s (TFolder p) = p"

fun theTFile :: "tabstractfile \<Rightarrow> nat" where
  "theTFile (TFile file) = file"
| "theTFile (TFolder p) = 0"

text \<open>The handler that \<open>onload\<close> registers for \<open>modify\<close>.\<close>

definition onModify :: "world \<Rightarrow> tabstractfile \<Rightarrow> world" where
  "onModify w f =
     (if isUpdating (fst w) \<or> \<not> instanceofTFile (fst w) f \<or> pathOf (fst w) f \<notin> boardPaths (fst w)
      then w
      else (fst w, snd w @ [AwaitsRead (theTFile f)]))"

text \<open>A suspended run of \<open>syncBoard\<close> goes on to its next \<open>await\<close>, or to its end.\<close>

fun resume :: "host \<Rightarrow> state \<Rightarrow> task \<Rightarrow> state \<times> task option" where
  "resume h s (AwaitsRead file) =
     (case cachedRead h s file of
        None \<Rightarrow> (s, None)
      | Some content \<Rightarrow>
          (let updates = parseBoardContent content
           in if length updates = 0 then (s, None)
              else (s\<lparr>isUpdating := True\<rparr>, Some (AwaitsUpdate updates))))"
| "resume h s (AwaitsUpdate []) = (s\<lparr>isUpdating := False\<rparr>, None)"
| "resume h s (AwaitsUpdate (u # us)) =
     (case updateNote h s (linkPath u) (columnName u) of
        Returns s1 \<Rightarrow> (s1, Some (AwaitsUpdate us))
      | Throws s1 \<Rightarrow> (s1, None))"

fun step :: "host \<Rightarrow> world \<Rightarrow> event \<Rightarrow> world" where
  "step h w (Modify f) = onModify w f"
| "step h w (Resume i) =
     (if i < length (snd w)
      then (case resume h (fst w) (snd w ! i) of
              (s1, None) \<Rightarrow> (s1, take i (snd w) @ drop (Suc i) (snd w))
            | (s1, Some t) \<Rightarrow> (s1, (snd w)[i := t]))
      else w)"

definition run :: "host \<Rightarrow> world \<Rightarrow> event list \<Rightarrow> world" where
  "run h w evs = foldl (step h) w evs"

section \<open>Predicates of the properties\<close>

text \<open>
  Line \<open>j\<close> of the board accounts for the update \<open>u\<close>: the first link token of the
  line is the link of \<open>u\<close>, and the column of \<open>u\<close> is the trimmed text of the nearest
  heading line before it.
\<close>

definition emittedAt :: "jsstring list \<Rightarrow> update \<Rightarrow> nat \<Rightarrow> bool" where
  "emittedAt ls u j \<longleftrightarrow>
     j < length ls \<and> linkMatch (ls ! j) = Some (linkPath u) \<and>
     (\<exists>i\<in>{..<j}. map_option trim (headingMatch (ls ! i)) = Some (columnName u) \<and>
            (\<forall>k\<in>{i<..j}. headingMatch (ls ! k) = None))"

text \<open>
  The value of \<open>currentColumn\<close> after the lines \<open>pre\<close>: \<open>null\<close> when none of them is a
  heading, the trimmed text of the last heading otherwise.
\<close>

definition columnAfter :: "jsstring list \<Rightarrow> jsstring option \<Rightarrow> bool" where
  "columnAfter pre cur \<longleftrightarrow>
     (case cur of
        None \<Rightarrow> (\<forall>k\<in>{..<length pre}. headingMatch (pre ! k) = None)
      | Some c \<Rightarrow> (\<exists>i\<in>{..<length pre}. map_option trim (headingMatch (pre ! i)) = Some c \<and>
            (\<forall>k\<in>{i<..<length pre}. headingMatch (pre ! k) = None)))"

text \<open>The invariant of the loop of \<open>parseBoardContent\<close> after the lines \<open>pre\<close>.\<close>

definition parsedPrefix :: "jsstring list \<Rightarrow> update list \<times> jsstring option \<Rightarrow> bool" where
  "parsedPrefix pre s \<longleftrightarrow>
     columnAfter pre (snd s) \<and>
     (\<exists>ns. list_all2 (emittedAt pre) (fst s) ns \<and> sorted_wrt (<) ns \<and> (\<forall>j\<in>set ns. j < length pre))"

text \<open>A string that neither starts nor ends with white space.\<close>

definition isTrimmed :: "jsstring \<Rightarrow> bool" where
  "isTrimmed c \<longleftrightarrow> c = [] \<or> (\<not> isWhiteSpace (hd c) \<and> \<not> isWhiteSpace (last c))"

text \<open>Every column name held by the loop of \<open>parseBoardContent\<close> is trimmed.\<close>

definition trimmedColumns :: "update list \<times> jsstring option \<Rightarrow> bool" where
  "trimmedColumns s \<longleftrightarrow>
     list_all (\<lambda>u. columnName u \<noteq> [] \<and> isTrimmed (columnName u)) (fst s)
     \<and> (case snd s of None \<Rightarrow> True | Some c \<Rightarrow> isTrimmed c)"

text \<open>
  The active area of the path convention, as \<open>archiveNote\<close> tests it: a folder named
  \<open>tasks\<close>, at the root of the vault or below another folder.
\<close>

definition isActiveArea :: "jsstring \<Rightarrow> bool" where
  "isActiveArea parentDir \<longleftrightarrow> endsWith parentDir (js ''/tasks'') \<or> parentDir = js ''tasks''"

text \<open>A folder path one of whose segments is \<open>tasks\<close>.\<close>

definition underTasks :: "jsstring \<Rightarrow> bool" where
  "underTasks parentDir \<longleftrightarrow> js ''tasks'' \<in> set (split 0x2F parentDir)"

text \<open>The calls made between the state \<open>s\<close> and the later state \<open>s1\<close>.\<close>

definition callsMade :: "state \<Rightarrow> state \<Rightarrow> call list" where
  "callsMade s s1 = drop (length (calls s)) (calls s1)"

text \<open>A host none of whose folder creations and moves fails.\<close>

definition movesSucceed :: "host \<Rightarrow> bool" where
  "movesSucceed h \<longleftrightarrow>
     (\<forall>s p. \<not> createFolderFails h s p) \<and> (\<forall>s file p. \<not> moveFails h s file p)"

text \<open>
  The locals \<open>parentDir\<close>, \<open>archivePath\<close> and \<open>newPath\<close> of \<open>archiveNote\<close> for a file
  of the state \<open>s\<close>.
\<close>

definition parentDir :: "state \<Rightarrow> nat \<Rightarrow> jsstring" where
  "parentDir s file = dirname (path (files s ! file))"

definition archivePath :: "state \<Rightarrow> nat \<Rightarrow> jsstring" where
  "archivePath s file = parentDir s file @ js ''/archive''"

definition newPath :: "state \<Rightarrow> nat \<Rightarrow> jsstring" where
  "newPath s file = archivePath s file @ js ''/'' @ name (files s ! file)"

text \<open>
  The state \<open>t\<close> differs from \<open>s\<close> at most in the paths of its notes, in its folders
  and in further calls: what placement may change.
\<close>

definition sameNotes :: "state \<Rightarrow> state \<Rightarrow> bool" where
  "sameNotes s t \<longleftrightarrow>
     map frontmatter (files t) = map frontmatter (files s) \<and> settings t = settings s
     \<and> isUpdating t = isUpdating s \<and> boardPaths t = boardPaths s
     \<and> (\<exists>cs. calls t = calls s @ cs)"

text \<open>The state after \<open>processFrontMatter\<close> has written the fields of the column \<open>col\<close>
  to the note \<open>file\<close>.\<close>

definition written :: "state \<Rightarrow> nat \<Rightarrow> jsstring \<Rightarrow> state" where
  "written s file col =
     called (ProcessFrontMatter file) s
       \<lparr>files := (files s)[file := (files s ! file)
          \<lparr>frontmatter := Some (writeFields (settings s) col (theRecord (getFileCache s file)))\<rparr>]\<rparr>"

text \<open>
  Two columns ask the same of a note: the same target status and, when both are
  quadrants, the same target flags.
\<close>

definition compatible :: "jsstring \<Rightarrow> jsstring \<Rightarrow> bool" where
  "compatible c d \<longleftrightarrow>
     status c = status d
     \<and> (isQuadrant c \<and> isQuadrant d \<longrightarrow> q_urgent c = q_urgent d \<and> q_important c = q_important d)"

text \<open>The note that the update \<open>u\<close> links to, if any, needs no update in the state \<open>s\<close>.\<close>

definition settled :: "host \<Rightarrow> state \<Rightarrow> update \<Rightarrow> bool" where
  "settled h s u \<longleftrightarrow>
     (case getFirstLinkpathDest h s (linkPath u) of
        None \<Rightarrow> True
      | Some file \<Rightarrow> \<not> needsUpdate (settings s) (columnName u) (getFileCache s file))"

text \<open>
  A column and a status property outside the cases in which a written note still needs an
  update: the column is not named like a property inherited from \<open>Object.prototype\<close>, the
  status property is not \<open>__proto__\<close>, and when the column is a quadrant the status
  property is neither \<open>urgent\<close> nor \<open>important\<close>.
\<close>

definition plainColumn :: "jsstring \<Rightarrow> jsstring \<Rightarrow> bool" where
  "plainColumn sp col \<longleftrightarrow>
     col \<notin> set Object_prototype \<and> sp \<noteq> js ''__proto__''
     \<and> (isQuadrant col \<longrightarrow> sp \<noteq> js ''urgent'' \<and> sp \<noteq> js ''important'')"

text \<open>
  A board all of whose columns are plain and on which two links to the same note stand
  under compatible columns.
\<close>

definition consistentBoard :: "host \<Rightarrow> jsstring \<Rightarrow> update list \<Rightarrow> bool" where
  "consistentBoard h sp us \<longleftrightarrow>
     (\<forall>u\<in>set us. plainColumn sp (columnName u))
     \<and> (\<forall>u\<in>set us. \<forall>v\<in>set us.
           resolveLinkTarget h (linkPath u) \<noteq> None
           \<and> resolveLinkTarget h (linkPath u) = resolveLinkTarget h (linkPath v)
           \<longrightarrow> compatible (columnName u) (columnName v))"

text \<open>
  No metadata write fails while the loop of \<open>syncBoard\<close> processes the updates \<open>us\<close> from
  the state \<open>s\<close>: whenever \<open>updateNote\<close> comes to call \<open>processFrontMatter\<close>, the host does
  not fail there.
\<close>

fun writesSucceedDuring :: "host \<Rightarrow> state \<Rightarrow> update list \<Rightarrow> bool" where
  "writesSucceedDuring h s [] = True"
| "writesSucceedDuring h s (u # us) =
     ((case getFirstLinkpathDest h s (linkPath u) of
         None \<Rightarrow> True
       | Some file \<Rightarrow>
           \<not> (needsUpdate (settings s) (columnName u) (getFileCache s file)
              \<and> mutateMetadataFails h s file))
      \<and> writesSucceedDuring h (stateOf (updateNote h s (linkPath u) (columnName u))) us)"

text \<open>
  The column policy in the words of the spec: the reserved quadrant names are the four
  names of the table, the target status is \<open>backlog\<close> for them and the column name for
  every other column, and an update is needed when the current status differs from the
  target status, or the column is a quadrant and a current flag differs from its target.
\<close>

definition isReservedQuadrant :: "jsstring \<Rightarrow> bool" where
  "isReservedQuadrant col = (col \<in> set (map fst QUADRANT_MAP))"

definition targetStatus :: "jsstring \<Rightarrow> jsstring" where
  "targetStatus col = (if isReservedQuadrant col then js ''backlog'' else col)"

definition needsUpdateSpec :: "KSUSettings \<Rightarrow> jsstring \<Rightarrow> frontmatter option \<Rightarrow> bool" where
  "needsUpdateSpec st col cache =
     (fieldOrNull cache (statusPropertyName st) \<noteq> JString (targetStatus col)
      \<or> (isReservedQuadrant col
          \<and> (fieldOrNull cache (js ''urgent'') \<noteq> q_urgent col
              \<or> fieldOrNull cache (js ''important'') \<noteq> q_important col)))"

section \<open>Example hosts and vaults\<close>

text \<open>A host that resolves the link \<open>x\<close> to the first note and never fails.\<close>

definition hostOk :: host where
  "hostOk = \<lparr>readText = (\<lambda>s file. None),
             resolveLinkTarget = (\<lambda>l. if l = js ''x'' then Some 0 else None),
             mutateMetadataFails = (\<lambda>s file. False),
             createFolderFails = (\<lambda>s p. False),
             moveFails = (\<lambda>s file p. False)\<rparr>"

text \<open>The same host, except that every move fails.\<close>

definition hostMoveFails :: host where
  "hostMoveFails = hostOk\<lparr>moveFails := (\<lambda>s file p. True)\<rparr>"

text \<open>
  A vault of two files: a note at the path \<open>p\<close> with the frontmatter \<open>fm\<close>, and the
  board \<open>board.md\<close>.
\<close>

definition vaultOf :: "jsstring \<Rightarrow> frontmatter option \<Rightarrow> state" where
  "vaultOf p fm =
     \<lparr>settings = \<lparr>statusPropertyName = js ''status'', showNotifications = False,
                   debugMode = False\<rparr>,
      isUpdating = False, boardPaths = {js ''board.md''},
      files = [\<lparr>path = p, frontmatter = fm\<rparr>, \<lparr>path = js ''board.md'', frontmatter = None\<rparr>],
      folders = {}, calls = []\<rparr>"

text \<open>The host \<open>hostOk\<close>, reading \<open>content\<close> as the text of every file.\<close>

definition hostBoard :: "jsstring \<Rightarrow> host" where
  "hostBoard content = hostOk\<lparr>readText := (\<lambda>s file. Some content)\<rparr>"

text \<open>The name of the fourth quadrant column.\<close>

definition doFirst :: jsstring where
  "doFirst = fst (QUADRANT_MAP ! 3)"

section \<open>Properties of the board parser\<close>

lemma emittedAt_snoc: "emittedAt pre u j \<Longrightarrow> emittedAt (pre @ [l]) u j"
  unfolding emittedAt_def
  by (auto simp: nth_append)

lemma columnAfter_heading:
  "headingMatch l = Some h \<Longrightarrow> columnAfter (pre @ [l]) (Some (trim h))"
  unfolding columnAfter_def by (auto intro!: bexI[of _ "length pre"] simp: nth_append)

lemma columnAfter_other:
  "headingMatch l = None \<Longrightarrow> columnAfter pre cur \<Longrightarrow> columnAfter (pre @ [l]) cur"
  unfolding columnAfter_def
  apply (cases cur)
   apply (auto simp: nth_append less_Suc_eq)
  done

lemma emittedAt_new:
  assumes "headingMatch l = None" "linkMatch l = Some t" "columnAfter pre (Some c)"
  shows "emittedAt (pre @ [l]) \<lparr>linkPath = t, columnName = c\<rparr> (length pre)"
proof -
  from assms(3) obtain i where i: "i < length pre" "map_option trim (headingMatch (pre ! i)) = Some c"
    "\<forall>k\<in>{i<..<length pre}. headingMatch (pre ! k) = None"
    unfolding columnAfter_def by auto
  show ?thesis unfolding emittedAt_def using assms(1,2) i
    by (auto intro!: bexI[of _ i] simp: nth_append)
qed

lemma parsedPrefix_step:
  assumes "parsedPrefix pre s"
  shows "parsedPrefix (pre @ [l]) (parseLine s l)"
proof -
  obtain acc cur where s: "s = (acc, cur)" by (cases s)
  from assms s obtain ns where ns: "list_all2 (emittedAt pre) acc ns" "sorted_wrt (<) ns"
    "\<forall>j\<in>set ns. j < length pre" and cur: "columnAfter pre cur"
    unfolding parsedPrefix_def by auto
  have nsA: "list_all2 (emittedAt (pre @ [l])) acc ns"
    using ns(1) by (rule list_all2_mono) (rule emittedAt_snoc)
  have lt: "\<forall>j\<in>set ns. j < length (pre @ [l])" using ns(3) by auto
  show ?thesis
  proof (cases "headingMatch l")
    case (Some h)
    then show ?thesis unfolding parsedPrefix_def s using nsA ns(2) lt columnAfter_heading[OF Some]
      by auto
  next
    case None
    note nh = None
    show ?thesis
    proof (cases "truthy cur \<and> linkMatch l \<noteq> None")
      case False
      then show ?thesis unfolding parsedPrefix_def s
        using nsA ns(2) lt columnAfter_other[OF nh cur] nh
        by (auto split: option.splits)
    next
      case True
      then obtain c t where c: "cur = Some c" and t: "linkMatch l = Some t"
        by (cases cur) auto
      have e: "emittedAt (pre @ [l]) \<lparr>linkPath = t, columnName = c\<rparr> (length pre)"
        using emittedAt_new[OF nh t] cur c by simp
      have "list_all2 (emittedAt (pre @ [l])) (acc @ [\<lparr>linkPath = t, columnName = c\<rparr>]) (ns @ [length pre])"
        using nsA e by (simp add: list_all2_appendI)
      moreover have "sorted_wrt (<) (ns @ [length pre])"
        using ns(2,3) by (simp add: sorted_wrt_append)
      moreover have "\<forall>j\<in>set (ns @ [length pre]). j < length (pre @ [l])"
        using ns(3) by auto
      ultimately have "\<exists>nsA. list_all2 (emittedAt (pre @ [l])) (acc @ [\<lparr>linkPath = t, columnName = c\<rparr>]) nsA \<and>
          sorted_wrt (<) nsA \<and> (\<forall>j\<in>set nsA. j < length (pre @ [l]))"
        by blast
      moreover have "parseLine s l = (acc @ [\<lparr>linkPath = t, columnName = c\<rparr>], cur)"
        using True c t nh s by simp
      ultimately show ?thesis unfolding parsedPrefix_def
        using columnAfter_other[OF nh cur] by simp
    qed
  qed
qed

lemma parsedPrefix_foldl: "parsedPrefix ls (foldl parseLine ([], None) ls)"
proof (induction ls rule: rev_induct)
  case Nil
  show ?case by (simp add: parsedPrefix_def columnAfter_def)
next
  case (snoc l ls)
  then show ?case using parsedPrefix_step by simp
qed

lemma parse_length_acc:
  "length (fst (foldl parseLine (acc, cur) ls))
     \<le> length acc + length (filter (\<lambda>l. linkMatch l \<noteq> None) ls)"
proof (induction ls arbitrary: acc cur)
  case Nil
  show ?case by simp
next
  case (Cons l ls)
  show ?case
  proof (cases "headingMatch l")
    case None
    then show ?thesis using Cons[of acc cur] Cons[of "acc @ [\<lparr>linkPath = the (linkMatch l), columnName = the cur\<rparr>]" cur]
      by (auto split: option.splits)
  next
    case (Some h)
    then show ?thesis using Cons[of acc "Some (trim h)"] by (auto)
  qed
qed

lemma split_not_Nil: "split sep s \<noteq> []"
  by (induction s) (auto split: list.splits)

lemma split_append: "split sep (a @ sep # b) = split sep a @ split sep b"
  by (induction a) (auto split: list.splits simp: split_not_Nil)

lemma parse_no_heading:
  "list_all (\<lambda>l. headingMatch l = None) pre \<Longrightarrow>
   foldl parseLine ([], None) (pre @ rest) = foldl parseLine ([], None) rest"
  by (induction pre) auto

lemma trim_decompose:
  "\<exists>pre post. s = pre @ trim s @ post \<and> list_all isWhiteSpace pre \<and> list_all isWhiteSpace post"
proof -
  let ?a = "dropWhile isWhiteSpace s"
  have 1: "s = takeWhile isWhiteSpace s @ ?a" by simp
  have 2: "rev ?a = takeWhile isWhiteSpace (rev ?a) @ dropWhile isWhiteSpace (rev ?a)" by simp
  have "?a = rev (rev ?a)" by simp
  also have "\<dots> = rev (takeWhile isWhiteSpace (rev ?a) @ dropWhile isWhiteSpace (rev ?a))" by simp
  also have "\<dots> = trim s @ rev (takeWhile isWhiteSpace (rev ?a))"
    by (simp only: rev_append trim_def)
  finally have 3: "?a = trim s @ rev (takeWhile isWhiteSpace (rev ?a))" .
  have "s = takeWhile isWhiteSpace s @ trim s @ rev (takeWhile isWhiteSpace (rev ?a))"
    using 1 3 by metis
  moreover have "list_all isWhiteSpace (takeWhile isWhiteSpace s)"
    by (simp add: list_all_iff) (meson set_takeWhileD)
  moreover have "list_all isWhiteSpace (rev (takeWhile isWhiteSpace (rev ?a)))"
    by (simp add: list_all_iff) (meson set_takeWhileD)
  ultimately show ?thesis by blast
qed

lemma trim_ends:
  assumes "trim s \<noteq> []"
  shows "\<not> isWhiteSpace (hd (trim s)) \<and> \<not> isWhiteSpace (last (trim s))"
proof -
  let ?a = "dropWhile isWhiteSpace s"
  let ?b = "dropWhile isWhiteSpace (rev ?a)"
  have b: "?b \<noteq> []" using assms by (simp add: trim_def)
  have a: "?a \<noteq> []"
  proof
    assume "?a = []"
    then have "rev ?a = []" by (simp only: rev.simps)
    then have "?b = []" by (simp only: dropWhile.simps)
    with b show False by simp
  qed
  have "last (trim s) = hd ?b" using b by (simp add: trim_def last_rev)
  moreover have "\<not> isWhiteSpace (hd ?b)" using b hd_dropWhile by blast
  moreover have "hd (trim s) = last ?b" using b by (simp add: trim_def hd_rev)
  moreover have "last ?b = last (rev ?a)" using b
    by (metis append_Nil2 last_appendR takeWhile_dropWhile_id)
  moreover have "last (rev ?a) = hd ?a" using a by (simp add: last_rev)
  moreover have "\<not> isWhiteSpace (hd ?a)" using a hd_dropWhile by blast
  ultimately show ?thesis by simp
qed

lemma isTrimmed_trim: "isTrimmed (trim h)"
  using trim_ends[of h] by (auto simp: isTrimmed_def)

lemma trimmedColumns_step: "trimmedColumns s \<Longrightarrow> trimmedColumns (parseLine s l)"
  by (cases s) (auto simp: trimmedColumns_def isTrimmed_trim split: option.splits)

lemma trimmedColumns_foldl: "trimmedColumns (foldl parseLine ([], None) ls)"
proof (induction ls rule: rev_induct)
  case Nil
  show ?case by (simp add: trimmedColumns_def)
next
  case (snoc l ls)
  then show ?case using trimmedColumns_step by simp
qed

lemma linkAt_shape:
  assumes "linkAt s = Some t"
  shows "\<exists>post. s = js ''[['' @ t @ js '']]'' @ post \<and> t \<noteq> [] \<and> 0x5D \<notin> set t"
proof -
  let ?r = "drop 2 s"
  let ?after = "dropWhile (\<lambda>c. c \<noteq> 0x5D) ?r"
  from assms have h: "take 2 s = js ''[[''" "t = takeWhile (\<lambda>c. c \<noteq> 0x5D) ?r" "t \<noteq> []"
    "take 2 ?after = js '']]''"
    by (auto simp: linkAt_def Let_def split: if_splits)
  have "s = take 2 s @ ?r" by simp
  also have "?r = t @ ?after" using h(2) by simp
  also have "?after = take 2 ?after @ drop 2 ?after" by simp
  finally have "s = js ''[['' @ t @ js '']]'' @ drop 2 ?after" using h(1,4) by simp
  moreover have "0x5D \<notin> set t" using h(2) by (metis (mono_tags, lifting) set_takeWhileD)
  ultimately show ?thesis using h(3) by blast
qed

lemma linkMatch_first:
  assumes "linkMatch l = Some t"
  shows "\<exists>before post. l = before @ js ''[['' @ t @ js '']]'' @ post \<and> t \<noteq> [] \<and> 0x5D \<notin> set t
           \<and> (\<forall>n<length before. linkAt (drop n l) = None)"
  using assms
proof (induction l)
  case Nil
  then show ?case by simp
next
  case (Cons c cs)
  show ?case
  proof (cases "linkAt (c # cs)")
    case (Some t')
    with Cons.prems have "t' = t" by simp
    with Some linkAt_shape[of "c # cs" t] obtain post where
      "c # cs = js ''[['' @ t @ js '']]'' @ post" "t \<noteq> []" "0x5D \<notin> set t" by auto
    then show ?thesis by (intro exI[of _ "[]"] exI[of _ post]) simp
  next
    case None
    with Cons.prems have "linkMatch cs = Some t" by simp
    from Cons.IH[OF this] obtain before post where
      b: "cs = before @ js ''[['' @ t @ js '']]'' @ post" "t \<noteq> []" "0x5D \<notin> set t"
         "\<forall>n<length before. linkAt (drop n cs) = None" by blast
    have "\<forall>n<length (c # before). linkAt (drop n (c # cs)) = None"
    proof (intro allI impI)
      fix n assume "n < length (c # before)"
      then show "linkAt (drop n (c # cs)) = None"
        using None b(4) by (cases n) auto
    qed
    then show ?thesis using b(1,2,3)
      by (intro exI[of _ "c # before"] exI[of _ post]) simp
  qed
qed

lemmas parser_eval = parseBoardContent_def js_def headingMatch_def linkAt_def trim_def
  isWhiteSpace_def isLineTerminator_def

text \<open>
  C5. For every board text: the parser emits at most as many updates as there are
  link-bearing lines; there is a strictly increasing sequence of line numbers, one for
  each emitted update in order, so that a line emits at most one update, whose link is the
  first bracketed link token of that line and whose column is the text of the nearest
  heading line before it; lines before the first heading are ignored, so a board read
  after any lines without a heading gives the same updates. \<open>parseBoardContent\<close> is a total
  function without an error result: no step of the source can throw.
\<close>

theorem parseBoardContent_pairs:
  "length (parseBoardContent content)
     \<le> length (filter (\<lambda>l. linkMatch l \<noteq> None) (split 0x0A content))
   \<and> (\<exists>ns. list_all2 (emittedAt (split 0x0A content)) (parseBoardContent content) ns
           \<and> sorted_wrt (<) ns)
   \<and> (list_all (\<lambda>l. headingMatch l = None) (split 0x0A before)
        \<longrightarrow> parseBoardContent (before @ 0x0A # content) = parseBoardContent content)"
proof (intro conjI impI)
  show "length (parseBoardContent content)
     \<le> length (filter (\<lambda>l. linkMatch l \<noteq> None) (split 0x0A content))"
    using parse_length_acc[of "[]" None "split 0x0A content"]
    by (simp add: parseBoardContent_def)
next
  from parsedPrefix_foldl[of "split 0x0A content"]
  show "\<exists>ns. list_all2 (emittedAt (split 0x0A content)) (parseBoardContent content) ns
           \<and> sorted_wrt (<) ns"
    unfolding parsedPrefix_def parseBoardContent_def by blast
next
  assume "list_all (\<lambda>l. headingMatch l = None) (split 0x0A before)"
  from parse_no_heading[OF this, of "split 0x0A content"]
  show "parseBoardContent (before @ 0x0A # content) = parseBoardContent content"
    by (simp add: parseBoardContent_def split_append)
qed

text \<open>C5 on a board with one heading, one line with two links and leading text.\<close>

theorem parseBoardContent_pairs_witness:
  "parseBoardContent (js ''## todo \<newline>- [[a]] [[b]]\<newline>'')
     = [\<lparr>linkPath = js ''a'', columnName = js ''todo''\<rparr>]
   \<and> length (filter (\<lambda>l. linkMatch l \<noteq> None) (split 0x0A (js ''## todo \<newline>- [[a]] [[b]]\<newline>''))) = 1
   \<and> (\<exists>ns. list_all2 (emittedAt (split 0x0A (js ''## todo \<newline>- [[a]] [[b]]\<newline>'')))
               (parseBoardContent (js ''## todo \<newline>- [[a]] [[b]]\<newline>'')) ns \<and> sorted_wrt (<) ns)
   \<and> list_all (\<lambda>l. headingMatch l = None) (split 0x0A (js ''intro [[z]]''))
   \<and> parseBoardContent (js ''intro [[z]]'' @ 0x0A # js ''## todo \<newline>- [[a]] [[b]]\<newline>'')
       = [\<lparr>linkPath = js ''a'', columnName = js ''todo''\<rparr>]"
proof -
  have h: "list_all (\<lambda>l. headingMatch l = None) (split 0x0A (js ''intro [[z]]''))"
    by (simp add: parser_eval)
  have p: "parseBoardContent (js ''## todo \<newline>- [[a]] [[b]]\<newline>'')
     = [\<lparr>linkPath = js ''a'', columnName = js ''todo''\<rparr>]"
    by (simp add: parser_eval)
  have n: "length (filter (\<lambda>l. linkMatch l \<noteq> None) (split 0x0A (js ''## todo \<newline>- [[a]] [[b]]\<newline>''))) = 1"
    by (simp add: parser_eval)
  from parseBoardContent_pairs[of "js ''## todo \<newline>- [[a]] [[b]]\<newline>''" "js ''intro [[z]]''"] h p n
  show ?thesis by simp
qed

text \<open>
  C10. The column name recorded at a heading line is the text captured after \<open>## \<close>
  with leading and trailing white space removed: the capture is white space, then the
  trimmed text, then white space, and the trimmed text neither starts nor ends with white
  space. So every column name emitted by the parser is non-empty and has no surrounding
  white space; the heading \<open>##  done  \<close> gives the column \<open>done\<close>, whose target status is
  \<open>done\<close>.
\<close>

theorem columnName_trimmed:
  "(headingMatch line = Some h \<longrightarrow> snd (parseLine (updates, cur) line) = Some (trim h))
   \<and> (\<exists>before after. h = before @ trim h @ after
         \<and> list_all isWhiteSpace before \<and> list_all isWhiteSpace after)
   \<and> (trim h \<noteq> [] \<longrightarrow> \<not> isWhiteSpace (hd (trim h)) \<and> \<not> isWhiteSpace (last (trim h)))
   \<and> (\<forall>u\<in>set (parseBoardContent content).
         columnName u \<noteq> [] \<and> \<not> isWhiteSpace (hd (columnName u))
         \<and> \<not> isWhiteSpace (last (columnName u)))
   \<and> parseBoardContent (js ''##  done  \<newline>[[x]]'')
       = [\<lparr>linkPath = js ''x'', columnName = js ''done''\<rparr>]
   \<and> status (js ''done'') = js ''done''"
proof (intro conjI impI ballI)
  assume "headingMatch line = Some h"
  then show "snd (parseLine (updates, cur) line) = Some (trim h)" by simp
next
  show "\<exists>before after. h = before @ trim h @ after
         \<and> list_all isWhiteSpace before \<and> list_all isWhiteSpace after"
    by (rule trim_decompose)
next
  assume "trim h \<noteq> []"
  then show "\<not> isWhiteSpace (hd (trim h))" "\<not> isWhiteSpace (last (trim h))"
    using trim_ends by blast+
next
  fix u assume "u \<in> set (parseBoardContent content)"
  with trimmedColumns_foldl[of "split 0x0A content"]
  have "columnName u \<noteq> [] \<and> isTrimmed (columnName u)"
    by (auto simp: trimmedColumns_def parseBoardContent_def list_all_iff)
  then show "columnName u \<noteq> []" "\<not> isWhiteSpace (hd (columnName u))"
    "\<not> isWhiteSpace (last (columnName u))"
    by (auto simp: isTrimmed_def)
next
  show "parseBoardContent (js ''##  done  \<newline>[[x]]'')
       = [\<lparr>linkPath = js ''x'', columnName = js ''done''\<rparr>]"
    by (simp add: parser_eval)
next
  show "status (js ''done'') = js ''done''"
    by (simp add: status_def isQuadrant_def QUADRANT_MAP_def Object_prototype_def js_def)
qed

text \<open>C10 at the heading line \<open>##  done  \<close>.\<close>

theorem columnName_trimmed_witness:
  "headingMatch (js ''##  done  '') = Some (js '' done  '')
   \<and> snd (parseLine ([], None) (js ''##  done  '')) = Some (js ''done'')
   \<and> trim (js '' done  '') = js ''done''
   \<and> \<lparr>linkPath = js ''x'', columnName = js ''done''\<rparr> \<in> set (parseBoardContent (js ''##  done  \<newline>[[x]]''))
   \<and> \<not> isWhiteSpace (hd (js ''done'')) \<and> \<not> isWhiteSpace (last (js ''done''))"
proof -
  have m: "headingMatch (js ''##  done  '') = Some (js '' done  '')"
    by (simp add: parser_eval)
  have t: "trim (js '' done  '') = js ''done''"
    by (simp add: parser_eval)
  have ne: "trim (js '' done  '') \<noteq> []" by (simp add: parser_eval)
  note inst = columnName_trimmed[of "js ''##  done  ''" "js '' done  ''" "[]" None "js ''##  done  \<newline>[[x]]''"]
  have mem: "\<lparr>linkPath = js ''x'', columnName = js ''done''\<rparr> \<in> set (parseBoardContent (js ''##  done  \<newline>[[x]]''))"
    using inst by simp
  from inst m t ne mem show ?thesis by auto
qed

section \<open>Properties of placement and of the column policy\<close>

lemma endsWith_iff: "endsWith s suffix \<longleftrightarrow> (\<exists>before. s = before @ suffix)"
proof
  assume "endsWith s suffix"
  then have "s = take (length s - length suffix) s @ suffix"
    by (metis append_take_drop_id endsWith_def)
  then show "\<exists>before. s = before @ suffix" ..
next
  assume "\<exists>before. s = before @ suffix"
  then show "endsWith s suffix" by (auto simp: endsWith_def)
qed

lemma archive_not_active: "\<not> isActiveArea (a @ js ''/archive'')"
proof
  assume "isActiveArea (a @ js ''/archive'')"
  then consider before where "a @ js ''/archive'' = before @ js ''/tasks''"
    | "a @ js ''/archive'' = js ''tasks''"
    unfolding isActiveArea_def endsWith_iff by blast
  then show False
  proof cases
    case 1
    then have "last (a @ js ''/archive'') = last (before @ js ''/tasks'')" by simp
    then show False by (simp add: js_def)
  next
    case 2
    then have "last (a @ js ''/archive'') = last (js ''tasks'')" by simp
    then show False by (simp add: js_def)
  qed
qed

lemma split_tasks: "split 0x2F (js ''tasks'') = [js ''tasks'']"
  by (simp add: js_def)

lemma active_underTasks: "isActiveArea p \<Longrightarrow> underTasks p"
proof -
  assume "isActiveArea p"
  then consider before where "p = before @ 0x2F # js ''tasks''" | "p = js ''tasks''"
    unfolding isActiveArea_def endsWith_iff by (auto simp: js_def)
  then show ?thesis
  proof cases
    case 1
    then show ?thesis unfolding underTasks_def by (simp add: split_append split_tasks)
  next
    case 2
    then show ?thesis unfolding underTasks_def by (simp add: split_tasks)
  qed
qed

lemma archive_underTasks: "endsWith p (js ''/tasks/archive'') \<Longrightarrow> underTasks p"
proof -
  assume "endsWith p (js ''/tasks/archive'')"
  then obtain before where "p = before @ 0x2F # (js ''tasks'' @ 0x2F # js ''archive'')"
    unfolding endsWith_iff by (auto simp: js_def)
  then show ?thesis unfolding underTasks_def
    by (simp add: split_append split_tasks del: append_assoc)
qed

lemma name_no_slash: "0x2F \<notin> set (name f)"
  unfolding name_def by (metis (mono_tags, lifting) set_rev set_takeWhileD)

lemma dirname_append: "0x2F \<notin> set n \<Longrightarrow> dirname (d @ 0x2F # n) = d"
proof -
  assume n: "0x2F \<notin> set n"
  have "dropWhile (\<lambda>c. c \<noteq> 0x2F) (rev n @ 0x2F # rev d) = 0x2F # rev d"
    using n by (auto simp: dropWhile_append3)
  then show ?thesis by (simp add: dirname_def)
qed

lemma name_append: "0x2F \<notin> set n \<Longrightarrow> name (f\<lparr>path := d @ 0x2F # n\<rparr>) = n"
proof -
  assume n: "0x2F \<notin> set n"
  have "takeWhile (\<lambda>c. c \<noteq> 0x2F) (rev n @ 0x2F # rev d) = rev n"
    using n by (auto simp: takeWhile_tail)
  then show ?thesis by (simp add: name_def)
qed


lemma archiveNote_inactive:
  "\<not> isActiveArea (dirname (path (files s ! file))) \<Longrightarrow> archiveNote h s file = Returns s"
  by (simp add: archiveNote_def parent_path_def isActiveArea_def)

lemma unarchiveNote_elsewhere:
  "\<not> endsWith (dirname (path (files s ! file))) (js ''/tasks/archive'')
     \<Longrightarrow> unarchiveNote h s file = Returns s"
  by (simp add: unarchiveNote_def parent_path_def)

lemma called_simps:
  "files (called c s) = files s" "folders (called c s) = folders s"
  "settings (called c s) = settings s" "isUpdating (called c s) = isUpdating s"
  "boardPaths (called c s) = boardPaths s" "calls (called c s) = calls s @ [c]"
  by (simp_all add: called_def)

lemma log_simps:
  "files (log s) = files s" "folders (log s) = folders s"
  "settings (log s) = settings s" "isUpdating (log s) = isUpdating s"
  "boardPaths (log s) = boardPaths s"
  "calls (log s) = calls s @ (if debugMode (settings s) then [ConsoleLog] else [])"
  by (simp_all add: log_def called_simps)

lemma notify_simps:
  "files (notify s) = files s" "folders (notify s) = folders s"
  "settings (notify s) = settings s" "isUpdating (notify s) = isUpdating s"
  "boardPaths (notify s) = boardPaths s"
  "calls (notify s) = calls s @ (if showNotifications (settings s) then [Notice] else [])"
  by (simp_all add: notify_def called_simps)

lemma archiveNote_active:
  assumes "isActiveArea (dirname (path (files s ! file)))"
  shows "archiveNote h s file =
     andThen (if \<not> getAbstractFileByPath s (dirname (path (files s ! file)) @ js ''/archive'')
              then createFolder h s (dirname (path (files s ! file)) @ js ''/archive'')
              else Returns s)
       (\<lambda>s1. andThen (renameFile h s1 file
                 ((dirname (path (files s ! file)) @ js ''/archive'') @ js ''/'' @ name (files s ! file)))
       (\<lambda>s2. Returns (notify (log s2))))"
proof -
  have ne: "dirname (path (files s ! file)) \<noteq> []"
    using assms by (auto simp: isActiveArea_def endsWith_def js_def)
  have "\<not> (\<not> endsWith (dirname (path (files s ! file))) (js ''/tasks'')
        \<and> dirname (path (files s ! file)) \<noteq> js ''tasks'')"
    using assms by (simp add: isActiveArea_def)
  then show ?thesis using ne
    by (auto simp: archiveNote_def parent_path_def Let_def)
qed

lemma createFolder_ok:
  "\<not> createFolderFails h s p \<Longrightarrow>
   createFolder h s p = Returns (called (CreateFolder p) s\<lparr>folders := insert p (folders s)\<rparr>)"
  by (simp add: createFolder_def Let_def called_simps)

lemma renameFile_ok:
  "\<not> moveFails h s file p \<Longrightarrow>
   renameFile h s file p =
     Returns (called (RenameFile file p) s\<lparr>files := (files s)[file := (files s ! file)\<lparr>path := p\<rparr>]\<rparr>)"
  by (simp add: renameFile_def Let_def called_simps)

lemma archiveNote_moves:
  assumes "isActiveArea (dirname (path (files s ! file)))" "movesSucceed h" "file < length (files s)"
  shows "\<exists>s1. archiveNote h s file = Returns s1
     \<and> path (files s1 ! file)
         = (dirname (path (files s ! file)) @ js ''/archive'') @ js ''/'' @ name (files s ! file)
     \<and> callsMade s s1
         = (if getAbstractFileByPath s (dirname (path (files s ! file)) @ js ''/archive'') then []
            else [CreateFolder (dirname (path (files s ! file)) @ js ''/archive'')])
           @ [RenameFile file
               ((dirname (path (files s ! file)) @ js ''/archive'') @ js ''/'' @ name (files s ! file))]
           @ (if debugMode (settings s) then [ConsoleLog] else [])
           @ (if showNotifications (settings s) then [Notice] else [])"
proof -
  have c: "\<And>t p. \<not> createFolderFails h t p" and m: "\<And>t f p. \<not> moveFails h t f p"
    using assms(2) by (auto simp: movesSucceed_def)
  show ?thesis
    unfolding archiveNote_active[OF assms(1)]
    using assms(3)
    by (simp add: createFolder_ok[OF c] renameFile_ok[OF m] callsMade_def
        called_simps log_simps notify_simps)
qed

lemma resolvePlacement_done:
  "newStatus = js ''done'' \<or> newStatus = js ''archive'' \<Longrightarrow>
   resolvePlacement h s file newStatus = archiveNote h s file"
  by (auto simp: resolvePlacement_def ARCHIVE_STATUSES_def)

lemma newPath_parts:
  "dirname (newPath s file) = archivePath s file"
  "path f = newPath s file \<Longrightarrow> name f = name (files s ! file)"
proof -
  have n: "newPath s file = archivePath s file @ 0x2F # name (files s ! file)"
    by (simp add: newPath_def js_def)
  show "dirname (newPath s file) = archivePath s file"
    unfolding n by (rule dirname_append) (rule name_no_slash)
  assume "path f = newPath s file"
  then have "f = f\<lparr>path := archivePath s file @ 0x2F # name (files s ! file)\<rparr>"
    using n by simp
  then show "name f = name (files s ! file)"
    using name_append[OF name_no_slash] by metis
qed

text \<open>
  C6. For every note and every archival new status (\<open>done\<close> or \<open>archive\<close>), the
  placement resolver acts if and only if the folder of the note is an active \<open>tasks\<close>
  area. Elsewhere it returns with the state unchanged. In an active area, on a host whose
  folder creations and moves succeed, it creates the archive folder exactly when nothing
  exists at its path, then moves the note to \<open>parentDir/archive/name\<close>, so that the note
  lies in the archive folder below its former folder under its former name. A note that is
  already archived does not move under an archival status, and a note whose folder has no
  path segment \<open>tasks\<close> does not move under any status.
\<close>

theorem archive_placement:
  assumes "newStatus = js ''done'' \<or> newStatus = js ''archive''"
  shows
   "(\<not> isActiveArea (parentDir s file) \<longrightarrow> resolvePlacement h s file newStatus = Returns s)
    \<and> (isActiveArea (parentDir s file) \<and> movesSucceed h \<and> file < length (files s) \<longrightarrow>
         (\<exists>s1. resolvePlacement h s file newStatus = Returns s1
            \<and> path (files s1 ! file) = newPath s file
            \<and> parentDir s1 file = parentDir s file @ js ''/archive''
            \<and> name (files s1 ! file) = name (files s ! file)
            \<and> callsMade s s1
                = (if getAbstractFileByPath s (archivePath s file) then []
                   else [CreateFolder (archivePath s file)])
                  @ [RenameFile file (newPath s file)]
                  @ (if debugMode (settings s) then [ConsoleLog] else [])
                  @ (if showNotifications (settings s) then [Notice] else [])))
    \<and> (\<forall>a. parentDir s file = a @ js ''/archive'' \<and> isActiveArea a \<longrightarrow>
           resolvePlacement h s file newStatus = Returns s)
    \<and> (\<not> underTasks (parentDir s file) \<longrightarrow>
           (\<forall>anyStatus. resolvePlacement h s file anyStatus = Returns s))"
proof (intro conjI impI allI)
  assume "\<not> isActiveArea (parentDir s file)"
  then show "resolvePlacement h s file newStatus = Returns s"
    by (simp add: resolvePlacement_done[OF assms] archiveNote_inactive parentDir_def)
next
  assume a: "isActiveArea (parentDir s file) \<and> movesSucceed h \<and> file < length (files s)"
  then obtain s1 where s1: "archiveNote h s file = Returns s1"
    "path (files s1 ! file) = newPath s file"
    "callsMade s s1
         = (if getAbstractFileByPath s (archivePath s file) then []
            else [CreateFolder (archivePath s file)])
           @ [RenameFile file (newPath s file)]
           @ (if debugMode (settings s) then [ConsoleLog] else [])
           @ (if showNotifications (settings s) then [Notice] else [])"
    using archiveNote_moves[of s "file" h]
    unfolding parentDir_def archivePath_def newPath_def by blast
  have "parentDir s1 file = parentDir s file @ js ''/archive''"
    using s1(2) newPath_parts(1)[of s "file"] by (simp add: parentDir_def archivePath_def)
  moreover have "name (files s1 ! file) = name (files s ! file)"
    using newPath_parts(2) s1(2) by blast
  ultimately show "\<exists>s1. resolvePlacement h s file newStatus = Returns s1
            \<and> path (files s1 ! file) = newPath s file
            \<and> parentDir s1 file = parentDir s file @ js ''/archive''
            \<and> name (files s1 ! file) = name (files s ! file)
            \<and> callsMade s s1
                = (if getAbstractFileByPath s (archivePath s file) then []
                   else [CreateFolder (archivePath s file)])
                  @ [RenameFile file (newPath s file)]
                  @ (if debugMode (settings s) then [ConsoleLog] else [])
                  @ (if showNotifications (settings s) then [Notice] else [])"
    using s1 by (simp add: resolvePlacement_done[OF assms])
next
  fix a assume "parentDir s file = a @ js ''/archive'' \<and> isActiveArea a"
  then have "\<not> isActiveArea (parentDir s file)" by (simp add: archive_not_active)
  then show "resolvePlacement h s file newStatus = Returns s"
    by (simp add: resolvePlacement_done[OF assms] archiveNote_inactive parentDir_def)
next
  fix anyStatus assume n: "\<not> underTasks (parentDir s file)"
  then have "\<not> isActiveArea (parentDir s file)"
    "\<not> endsWith (parentDir s file) (js ''/tasks/archive'')"
    using active_underTasks archive_underTasks by blast+
  then show "resolvePlacement h s file anyStatus = Returns s"
    by (simp add: resolvePlacement_def archiveNote_inactive unarchiveNote_elsewhere parentDir_def)
qed


lemmas path_eval = parentDir_def archivePath_def newPath_def dirname_def name_def js_def
  isActiveArea_def endsWith_def underTasks_def

lemma movesSucceed_hostOk: "movesSucceed hostOk"
  by (simp add: movesSucceed_def hostOk_def)

text \<open>
  C6 at \<open>projects/tasks/x.md\<close> (moved), \<open>projects/tasks/archive/x.md\<close> (already
  archived) and \<open>notes/x.md\<close> (not under \<open>tasks\<close>).
\<close>

theorem archive_placement_witness:
  "(\<exists>s1. resolvePlacement hostOk (vaultOf (js ''projects/tasks/x.md'') None) 0 (js ''done'') = Returns s1
      \<and> path (files s1 ! 0) = js ''projects/tasks/archive/x.md''
      \<and> callsMade (vaultOf (js ''projects/tasks/x.md'') None) s1
          = [CreateFolder (js ''projects/tasks/archive''),
             RenameFile 0 (js ''projects/tasks/archive/x.md'')])
   \<and> resolvePlacement hostOk (vaultOf (js ''projects/tasks/archive/x.md'') None) 0 (js ''archive'')
     = Returns (vaultOf (js ''projects/tasks/archive/x.md'') None)
   \<and> resolvePlacement hostOk (vaultOf (js ''notes/x.md'') None) 0 (js ''done'')
     = Returns (vaultOf (js ''notes/x.md'') None)
   \<and> resolvePlacement hostOk (vaultOf (js ''notes/x.md'') None) 0 (js ''in-progress'')
     = Returns (vaultOf (js ''notes/x.md'') None)"
proof -
  let ?s = "vaultOf (js ''projects/tasks/x.md'') None"
  have p: "parentDir ?s 0 = js ''projects/tasks''" "archivePath ?s 0 = js ''projects/tasks/archive''"
    "newPath ?s 0 = js ''projects/tasks/archive/x.md''"
    by (simp_all add: vaultOf_def path_eval)
  have act: "isActiveArea (parentDir ?s 0) \<and> movesSucceed hostOk \<and> 0 < length (files ?s)"
    unfolding p by (simp add: movesSucceed_hostOk) (simp add: vaultOf_def path_eval)
  have absent: "\<not> getAbstractFileByPath ?s (js ''projects/tasks/archive'')"
    by (simp add: getAbstractFileByPath_def vaultOf_def js_def)
  have quiet: "\<not> debugMode (settings ?s)" "\<not> showNotifications (settings ?s)"
    by (simp_all add: vaultOf_def)
  have 1: "\<exists>s1. resolvePlacement hostOk ?s 0 (js ''done'') = Returns s1
      \<and> path (files s1 ! 0) = js ''projects/tasks/archive/x.md''
      \<and> callsMade ?s s1
          = [CreateFolder (js ''projects/tasks/archive''),
             RenameFile 0 (js ''projects/tasks/archive/x.md'')]"
    using archive_placement[of "js ''done''" ?s 0 hostOk] act absent quiet
    unfolding p by auto
  let ?t = "vaultOf (js ''projects/tasks/archive/x.md'') None"
  have arch: "parentDir ?t 0 = js ''projects/tasks'' @ js ''/archive'' \<and> isActiveArea (js ''projects/tasks'')"
    by (simp add: vaultOf_def path_eval)
  have 2: "resolvePlacement hostOk ?t 0 (js ''archive'') = Returns ?t"
    using archive_placement[of "js ''archive''" ?t 0 hostOk] arch by blast
  let ?u = "vaultOf (js ''notes/x.md'') None"
  have nt: "\<not> underTasks (parentDir ?u 0)"
    by (simp add: vaultOf_def path_eval)
  have 3: "resolvePlacement hostOk ?u 0 (js ''done'') = Returns ?u"
    "resolvePlacement hostOk ?u 0 (js ''in-progress'') = Returns ?u"
    using archive_placement[of "js ''done''" ?u 0 hostOk] nt by blast+
  from 1 2 3 show ?thesis by simp
qed

lemma column_policy_table:
  "map (\<lambda>c. (isQuadrant c, status c, q_urgent c, q_important c)) (map fst QUADRANT_MAP)
     = [(True, js ''backlog'', JBool False, JBool False),
        (True, js ''backlog'', JBool True, JBool False),
        (True, js ''backlog'', JBool False, JBool True),
        (True, js ''backlog'', JBool True, JBool True)]"
  by (simp add: isQuadrant_def status_def q_urgent_def q_important_def QUADRANT_MAP_def js_def)

lemma column_policy_plain:
  "col \<notin> set (map fst QUADRANT_MAP) \<Longrightarrow> col \<notin> set Object_prototype \<Longrightarrow>
   \<not> isQuadrant col \<and> status col = col"
  by (simp add: isQuadrant_def status_def)

text \<open>
  C2, at the column name \<open>constructor\<close>, which is not one of the four quadrant names:
  the operator \<open>in\<close> finds the property that \<open>QUADRANT_MAP\<close> inherits from
  \<open>Object.prototype\<close>, so the column is taken as a quadrant, the target status is
  \<open>backlog\<close> and not the column name, and the target flags are \<open>undefined\<close>. The board
  \<open>## constructor\<close> followed by a link yields this column name.
\<close>

theorem status_inherited_property:
  "js ''constructor'' \<notin> set (map fst QUADRANT_MAP)
   \<and> isQuadrant (js ''constructor'')
   \<and> status (js ''constructor'') = js ''backlog''
   \<and> q_urgent (js ''constructor'') = JUndefined
   \<and> q_important (js ''constructor'') = JUndefined
   \<and> parseBoardContent (js ''## constructor\<newline>[[x]]'')
       = [\<lparr>linkPath = js ''x'', columnName = js ''constructor''\<rparr>]"
  by (simp add: isQuadrant_def status_def q_urgent_def q_important_def QUADRANT_MAP_def
      Object_prototype_def parser_eval)

text \<open>What \<open>unarchiveNote\<close> does below a folder that holds the \<open>tasks\<close> folder.\<close>

lemma unarchiveNote_moves:
  assumes "endsWith (parentDir s file) (js ''/tasks/archive'')" "movesSucceed h"
    "file < length (files s)"
  shows "\<exists>s1. unarchiveNote h s file = Returns s1
     \<and> path (files s1 ! file) = stripArchive (parentDir s file) @ js ''/'' @ name (files s ! file)"
proof -
  have m: "\<And>t f p. \<not> moveFails h t f p" using assms(2) by (simp add: movesSucceed_def)
  have ne: "parentDir s file \<noteq> []" using assms(1) by (auto simp: endsWith_def js_def)
  show ?thesis using assms(1,3) ne
    by (simp add: unarchiveNote_def parent_path_def parentDir_def Let_def renameFile_ok[OF m]
        called_simps log_simps notify_simps)
qed

text \<open>
  C3, at a note \<open>tasks/archive/x.md\<close> below a \<open>tasks\<close> folder at the root of the vault,
  with the non-archival status \<open>in-progress\<close>: on every host the placement resolver
  returns with the state unchanged, because the folder \<open>tasks/archive\<close> does not end with
  \<open>/tasks/archive\<close>. \<open>archiveNote\<close> does treat the root folder \<open>tasks\<close> as active and moves
  \<open>tasks/x.md\<close> to \<open>tasks/archive/x.md\<close>, and below another folder the note is restored.
\<close>

theorem unarchiveNote_root_tasks:
  "resolvePlacement h (vaultOf (js ''tasks/archive/x.md'') None) 0 (js ''in-progress'')
     = Returns (vaultOf (js ''tasks/archive/x.md'') None)
   \<and> (\<exists>s1. resolvePlacement hostOk (vaultOf (js ''tasks/x.md'') None) 0 (js ''done'') = Returns s1
         \<and> path (files s1 ! 0) = js ''tasks/archive/x.md'')
   \<and> (\<exists>s1. resolvePlacement hostOk (vaultOf (js ''projects/tasks/archive/x.md'') None) 0 (js ''in-progress'')
           = Returns s1 \<and> path (files s1 ! 0) = js ''projects/tasks/x.md'')"
  by (simp add: resolvePlacement_def ARCHIVE_STATUSES_def archiveNote_def unarchiveNote_def
        stripArchive_def parent_path_def
        createFolder_def renameFile_def getAbstractFileByPath_def called_def log_def notify_def
        hostOk_def vaultOf_def Let_def dirname_def name_def endsWith_def js_def)

section \<open>Properties of the sync engine\<close>

lemma update_path_frontmatter:
  "map frontmatter (xs[i := (xs ! i)\<lparr>path := p\<rparr>]) = map frontmatter xs"
proof (cases "i < length xs")
  case True
  then show ?thesis by (simp add: map_update list_update_same_conv)
next
  case False
  then show ?thesis by (simp add: list_update_beyond)
qed

text \<open>What \<open>createFolder\<close> and \<open>renameFile\<close> leave alone.\<close>

lemma createFolder_frame:
  "files (stateOf (createFolder h s p)) = files s"
  "settings (stateOf (createFolder h s p)) = settings s"
  "isUpdating (stateOf (createFolder h s p)) = isUpdating s"
  "boardPaths (stateOf (createFolder h s p)) = boardPaths s"
  "\<exists>cs. calls (stateOf (createFolder h s p)) = calls s @ cs"
  by (simp_all add: createFolder_def Let_def called_simps)

lemma renameFile_frame:
  "map frontmatter (files (stateOf (renameFile h s file p))) = map frontmatter (files s)"
  "length (files (stateOf (renameFile h s file p))) = length (files s)"
  "settings (stateOf (renameFile h s file p)) = settings s"
  "isUpdating (stateOf (renameFile h s file p)) = isUpdating s"
  "boardPaths (stateOf (renameFile h s file p)) = boardPaths s"
  "\<exists>cs. calls (stateOf (renameFile h s file p)) = calls s @ cs"
  "renameFile h s file p = Throws t \<Longrightarrow> files t = files s"
  by (auto simp: renameFile_def Let_def called_simps update_path_frontmatter split: if_splits)

lemma sameNotes_refl: "sameNotes s s"
  by (simp add: sameNotes_def)

lemma sameNotes_trans: "sameNotes s t \<Longrightarrow> sameNotes t u \<Longrightarrow> sameNotes s u"
  by (auto simp: sameNotes_def)

lemma sameNotes_log: "sameNotes s (log s)" and sameNotes_notify: "sameNotes s (notify s)"
  and sameNotes_called: "sameNotes s (called c s)"
  by (simp_all add: sameNotes_def log_simps notify_simps called_simps)

lemma sameNotes_createFolder: "sameNotes s (stateOf (createFolder h s p))"
  using createFolder_frame[of h s p] by (simp add: sameNotes_def)

lemma sameNotes_renameFile: "sameNotes s (stateOf (renameFile h s file p))"
  using renameFile_frame(1-6)[of h s "file" p] by (simp add: sameNotes_def)

lemma sameNotes_andThen:
  assumes "sameNotes s (stateOf c)" "\<And>t. sameNotes s t \<Longrightarrow> sameNotes s (stateOf (f t))"
  shows "sameNotes s (stateOf (andThen c f))"
  using assms by (cases c) auto

lemma sameNotes_archiveNote: "sameNotes s (stateOf (archiveNote h s file))"
proof -
  have "sameNotes s (stateOf
     (andThen (if \<not> getAbstractFileByPath s ap then createFolder h s ap else Returns s)
       (\<lambda>s1. andThen (renameFile h s1 file np) (\<lambda>s2. Returns (notify (log s2))))))" for ap np
  proof (rule sameNotes_andThen)
    show "sameNotes s (stateOf (if \<not> getAbstractFileByPath s ap then createFolder h s ap else Returns s))"
      by (simp add: sameNotes_createFolder sameNotes_refl)
  next
    fix t assume t: "sameNotes s t"
    show "sameNotes s (stateOf (andThen (renameFile h t file np) (\<lambda>s2. Returns (notify (log s2)))))"
    proof (rule sameNotes_andThen)
      show "sameNotes s (stateOf (renameFile h t file np))"
        using t sameNotes_renameFile sameNotes_trans by blast
    next
      fix u assume "sameNotes s u"
      then show "sameNotes s (stateOf (Returns (notify (log u))))"
        using sameNotes_log sameNotes_notify sameNotes_trans by (metis stateOf.simps(1))
    qed
  qed
  then show ?thesis
    by (simp add: archiveNote_def parent_path_def Let_def sameNotes_refl)
qed

lemma sameNotes_unarchiveNote: "sameNotes s (stateOf (unarchiveNote h s file))"
proof -
  have "sameNotes s (stateOf (andThen (renameFile h s file np) (\<lambda>s1. Returns (notify (log s1)))))" for np
  proof (rule sameNotes_andThen)
    show "sameNotes s (stateOf (renameFile h s file np))" by (rule sameNotes_renameFile)
  next
    fix u assume "sameNotes s u"
    then show "sameNotes s (stateOf (Returns (notify (log u))))"
      using sameNotes_log sameNotes_notify sameNotes_trans by (metis stateOf.simps(1))
  qed
  then show ?thesis
    by (simp add: unarchiveNote_def parent_path_def Let_def sameNotes_refl)
qed

lemma sameNotes_resolvePlacement: "sameNotes s (stateOf (resolvePlacement h s file st))"
  by (simp add: resolvePlacement_def sameNotes_archiveNote sameNotes_unarchiveNote)

lemma resolvePlacement_Throws:
  assumes "resolvePlacement h s file st = Throws t"
  shows "files t = files s"
proof -
  have r: "renameFile h u file np = Throws t \<Longrightarrow> files t = files u" for u np
    by (rule renameFile_frame(7))
  have a: "andThen (renameFile h u file np) (\<lambda>s2. Returns (notify (log s2))) = Throws t
      \<Longrightarrow> files t = files u" for u np
    by (cases "renameFile h u file np") (auto dest: r)
  have c: "andThen (if \<not> getAbstractFileByPath s ap then createFolder h s ap else Returns s)
       (\<lambda>s1. andThen (renameFile h s1 file np) (\<lambda>s2. Returns (notify (log s2)))) = Throws t
      \<Longrightarrow> files t = files s" for ap np
    by (auto simp: createFolder_def Let_def called_simps split: if_splits dest!: a)
  show ?thesis using assms a c
    by (auto simp: resolvePlacement_def archiveNote_def unarchiveNote_def parent_path_def Let_def
        split: if_splits)
qed

lemma processFrontMatter_cases:
  "mutateMetadataFails h s file \<Longrightarrow>
     processFrontMatter h s file fn = Throws (called (ProcessFrontMatter file) s)"
  "\<not> mutateMetadataFails h s file \<Longrightarrow>
     processFrontMatter h s file fn =
       Returns (called (ProcessFrontMatter file) s
         \<lparr>files := (files s)[file := (files s ! file)
            \<lparr>frontmatter := Some (fn (theRecord (frontmatter (files s ! file))))\<rparr>]\<rparr>)"
  by (simp_all add: processFrontMatter_def Let_def called_simps)

text \<open>The ways through the \<open>try\<close> block of \<open>updateNote\<close>.\<close>

lemma updateNote_unresolved:
  "getFirstLinkpathDest h s notePath = None \<Longrightarrow> updateNote h s notePath col = Returns s"
  by (simp add: updateNote_def updateNoteTry_def)

lemma updateNote_skip:
  "getFirstLinkpathDest h s notePath = Some file \<Longrightarrow>
   \<not> needsUpdate (settings s) col (getFileCache s file) \<Longrightarrow>
   updateNote h s notePath col = Returns s"
  by (simp add: updateNote_def updateNoteTry_def)

lemma updateNote_write_fails:
  "getFirstLinkpathDest h s notePath = Some file \<Longrightarrow>
   needsUpdate (settings s) col (getFileCache s file) \<Longrightarrow>
   mutateMetadataFails h s file \<Longrightarrow>
   updateNote h s notePath col
     = Returns (called ConsoleError (called (ProcessFrontMatter file) s))"
  by (simp add: updateNote_def updateNoteTry_def processFrontMatter_cases)

lemma updateNote_write:
  assumes "getFirstLinkpathDest h s notePath = Some file"
    "needsUpdate (settings s) col (getFileCache s file)"
    "\<not> mutateMetadataFails h s file"
  shows "updateNote h s notePath col =
     (case resolvePlacement h (notify (log (written s file col))) file (status col) of
        Returns s2 \<Rightarrow> Returns s2 | Throws s2 \<Rightarrow> Returns (called ConsoleError s2))"
  using assms
  by (simp add: updateNote_def updateNoteTry_def processFrontMatter_cases written_def getFileCache_def)

lemma updateNote_Returns: "\<exists>s1. updateNote h s notePath col = Returns s1"
  by (simp add: updateNote_def split: completion.splits)

lemma map_update_keep:
  assumes "f (g (xs ! i)) = f (xs ! i)"
  shows "map f (xs[i := g (xs ! i)]) = map f xs"
proof (cases "i < length xs")
  case True
  then show ?thesis using assms by (simp add: map_update list_update_same_conv)
next
  case False
  then show ?thesis by (simp add: list_update_beyond)
qed

lemma written_simps:
  "settings (written s file col) = settings s" "isUpdating (written s file col) = isUpdating s"
  "boardPaths (written s file col) = boardPaths s" "folders (written s file col) = folders s"
  "calls (written s file col) = calls s @ [ProcessFrontMatter file]"
  "length (files (written s file col)) = length (files s)"
  "map frontmatter (files (written s file col))
     = (map frontmatter (files s))
         [file := Some (writeFields (settings s) col (theRecord (getFileCache s file)))]"
  "map path (files (written s file col)) = map path (files s)"
proof -
  show "map path (files (written s file col)) = map path (files s)"
    using map_update_keep[of path "\<lambda>f. f\<lparr>frontmatter := Some (writeFields (settings s) col (theRecord (getFileCache s file)))\<rparr>" "files s" "file"]
    by (simp add: written_def called_simps)
qed (simp_all add: written_def called_simps map_update)

lemma resolved_in_range: "getFirstLinkpathDest h s notePath = Some file \<Longrightarrow> file < length (files s)"
  by (auto simp: getFirstLinkpathDest_def split: option.splits if_splits)

lemma sameNotes_written_placement:
  "sameNotes (written s file col)
     (stateOf (resolvePlacement h (notify (log (written s file col))) file st))"
proof -
  have "sameNotes (written s file col) (notify (log (written s file col)))"
    by (rule sameNotes_trans[OF sameNotes_log sameNotes_notify])
  then show ?thesis by (rule sameNotes_trans) (rule sameNotes_resolvePlacement)
qed

text \<open>What one call of \<open>updateNote\<close> leaves behind.\<close>

lemma updateNote_result:
  "\<exists>s1. updateNote h s notePath col = Returns s1
     \<and> settings s1 = settings s \<and> isUpdating s1 = isUpdating s \<and> boardPaths s1 = boardPaths s
     \<and> map frontmatter (files s1)
         = (case getFirstLinkpathDest h s notePath of
              None \<Rightarrow> map frontmatter (files s)
            | Some file \<Rightarrow>
                if needsUpdate (settings s) col (getFileCache s file) \<and> \<not> mutateMetadataFails h s file
                then (map frontmatter (files s))
                       [file := Some (writeFields (settings s) col (theRecord (getFileCache s file)))]
                else map frontmatter (files s))
     \<and> (\<exists>cs. calls s1 = calls s @ cs)"
proof (cases "getFirstLinkpathDest h s notePath")
  case None
  then show ?thesis by (simp add: updateNote_unresolved)
next
  case (Some fl)
  show ?thesis
  proof (cases "needsUpdate (settings s) col (getFileCache s fl)")
    case False
    then show ?thesis using Some by (simp add: updateNote_skip)
  next
    case True
    show ?thesis
    proof (cases "mutateMetadataFails h s fl")
      case True
      then show ?thesis using Some \<open>needsUpdate (settings s) col (getFileCache s fl)\<close>
        by (simp add: updateNote_write_fails called_simps)
    next
      case False
      let ?c = "resolvePlacement h (notify (log (written s fl col))) fl (status col)"
      have sn: "sameNotes (written s fl col) (stateOf ?c)"
        by (rule sameNotes_written_placement)
      have u: "updateNote h s notePath col =
          (case ?c of Returns s2 \<Rightarrow> Returns s2 | Throws s2 \<Rightarrow> Returns (called ConsoleError s2))"
        using updateNote_write[OF Some True False] .
      obtain s1 where s1: "updateNote h s notePath col = Returns s1"
        "s1 = stateOf ?c \<or> s1 = called ConsoleError (stateOf ?c)"
        using u by (cases ?c) simp_all
      have sn1: "map frontmatter (files (stateOf ?c)) = map frontmatter (files (written s fl col))"
        and sn2: "settings (stateOf ?c) = settings (written s fl col)"
        and sn3: "isUpdating (stateOf ?c) = isUpdating (written s fl col)"
        and sn4: "boardPaths (stateOf ?c) = boardPaths (written s fl col)"
        and sn5: "\<exists>cs. calls (stateOf ?c) = calls (written s fl col) @ cs"
        using sn unfolding sameNotes_def by blast+
      from sn5 obtain cs where cs: "calls (stateOf ?c) = calls s @ ProcessFrontMatter fl # cs"
        by (auto simp: written_simps(5))
      have a: "settings s1 = settings s \<and> isUpdating s1 = isUpdating s \<and> boardPaths s1 = boardPaths s"
        and b: "map frontmatter (files s1) = map frontmatter (files (written s fl col))"
        and c: "\<exists>cs. calls s1 = calls s @ cs"
        using s1(2)
      proof -
        assume "s1 = stateOf ?c \<or> s1 = called ConsoleError (stateOf ?c)"
        then have e: "settings s1 = settings (stateOf ?c)" "isUpdating s1 = isUpdating (stateOf ?c)"
          "boardPaths s1 = boardPaths (stateOf ?c)" "files s1 = files (stateOf ?c)"
          "calls s1 = calls (stateOf ?c) \<or> calls s1 = calls (stateOf ?c) @ [ConsoleError]"
          by (elim disjE; simp add: called_simps)+
        show "settings s1 = settings s \<and> isUpdating s1 = isUpdating s \<and> boardPaths s1 = boardPaths s"
          by (simp only: e sn2 sn3 sn4 written_simps(1-3))
        show "map frontmatter (files s1) = map frontmatter (files (written s fl col))"
          by (simp only: e sn1)
        show "\<exists>cs. calls s1 = calls s @ cs"
          using e(5) cs by auto
      qed
      have d: "(case getFirstLinkpathDest h s notePath of
              None \<Rightarrow> map frontmatter (files s)
            | Some file \<Rightarrow>
                if needsUpdate (settings s) col (getFileCache s file) \<and> \<not> mutateMetadataFails h s file
                then (map frontmatter (files s))
                       [file := Some (writeFields (settings s) col (theRecord (getFileCache s file)))]
                else map frontmatter (files s)) = map frontmatter (files (written s fl col))"
        using Some True False by (simp add: written_simps(7))
      show ?thesis unfolding d using s1(1) a b c by blast
    qed
  qed
qed

lemma flag_keys:
  "js ''urgent'' \<noteq> js ''important''" "js ''urgent'' \<noteq> js ''__proto__''"
  "js ''important'' \<noteq> js ''__proto__''" "js ''urgent'' \<notin> set Object_prototype"
  "js ''important'' \<notin> set Object_prototype"
  by (simp_all add: Object_prototype_def js_def)

lemma setField_other: "k \<noteq> key \<Longrightarrow> setField fm key v k = fm k"
  by (simp add: setField_def)

lemma getField_setField: "key \<noteq> js ''__proto__'' \<Longrightarrow> getField (setField fm key v) key = v"
  by (simp add: setField_def getField_def)

lemma getField_setField_other: "k \<noteq> key \<Longrightarrow> getField (setField fm key v) k = getField fm k"
  by (simp add: getField_def setField_other)

lemma writeFields_other:
  "k \<noteq> statusPropertyName st \<Longrightarrow> (isQuadrant col \<longrightarrow> k \<noteq> js ''urgent'' \<and> k \<noteq> js ''important'')
     \<Longrightarrow> writeFields st col fm k = fm k"
  by (simp add: writeFields_def Let_def setField_other)

text \<open>What the write stores: the target status and, for a quadrant, the target flags.\<close>

lemma writeFields_status:
  assumes "statusPropertyName st \<noteq> js ''__proto__''"
    "isQuadrant col \<longrightarrow> statusPropertyName st \<noteq> js ''urgent'' \<and> statusPropertyName st \<noteq> js ''important''"
  shows "getField (writeFields st col fm) (statusPropertyName st) = JString (status col)"
  using assms by (simp add: writeFields_def Let_def getField_setField getField_setField_other)

lemma writeFields_flags:
  assumes "isQuadrant col"
  shows "getField (writeFields st col fm) (js ''urgent'') = q_urgent col"
    "getField (writeFields st col fm) (js ''important'') = q_important col"
  using assms flag_keys
  by (simp_all add: writeFields_def Let_def getField_setField getField_setField_other)

lemma updateNote_calls_write:
  assumes "getFirstLinkpathDest h s notePath = Some fl"
    "needsUpdate (settings s) col (getFileCache s fl)"
  shows "\<exists>rest. callsMade s (stateOf (updateNote h s notePath col)) = ProcessFrontMatter fl # rest"
proof (cases "mutateMetadataFails h s fl")
  case True
  show ?thesis
    by (simp add: updateNote_write_fails[OF assms True] callsMade_def called_simps)
next
  case False
  let ?c = "resolvePlacement h (notify (log (written s fl col))) fl (status col)"
  from sameNotes_written_placement[of s fl col h "status col"]
  obtain cs where cs: "calls (stateOf ?c) = calls s @ ProcessFrontMatter fl # cs"
    unfolding sameNotes_def by (auto simp: written_simps(5))
  have "stateOf (updateNote h s notePath col) = stateOf ?c
      \<or> stateOf (updateNote h s notePath col) = called ConsoleError (stateOf ?c)"
    unfolding updateNote_write[OF assms False] by (cases ?c) simp_all
  then have "calls (stateOf (updateNote h s notePath col)) = calls s @ ProcessFrontMatter fl # cs
      \<or> calls (stateOf (updateNote h s notePath col)) = calls s @ ProcessFrontMatter fl # (cs @ [ConsoleError])"
    using cs by (elim disjE; simp add: called_simps)
  then show ?thesis by (auto simp: callsMade_def)
qed

text \<open>
  For a pair whose link resolves to a note, \<open>updateNote\<close> calls \<open>processFrontMatter\<close> if
  and only if the \<open>needsUpdate\<close> of the code holds, and then this write on the resolved
  note is the first call it makes; otherwise it returns with the state unchanged, so
  without a write and without a placement call. The last conjunct spells out the
  \<open>needsUpdate\<close> of the code, with the quadrant test and the target status of the code.
\<close>

lemma write_iff_needsUpdate:
  assumes "getFirstLinkpathDest h s notePath = Some fl"
  shows
   "((\<exists>j. ProcessFrontMatter j \<in> set (callsMade s (stateOf (updateNote h s notePath col))))
       \<longleftrightarrow> needsUpdate (settings s) col (getFileCache s fl))
    \<and> (needsUpdate (settings s) col (getFileCache s fl) \<longrightarrow>
          (\<exists>rest. callsMade s (stateOf (updateNote h s notePath col)) = ProcessFrontMatter fl # rest))
    \<and> (\<not> needsUpdate (settings s) col (getFileCache s fl) \<longrightarrow>
          updateNote h s notePath col = Returns s)
    \<and> needsUpdate (settings s) col (getFileCache s fl)
        = (fieldOrNull (getFileCache s fl) (statusPropertyName (settings s)) \<noteq> JString (status col)
           \<or> (isQuadrant col
               \<and> (fieldOrNull (getFileCache s fl) (js ''urgent'') \<noteq> q_urgent col
                   \<or> fieldOrNull (getFileCache s fl) (js ''important'') \<noteq> q_important col)))"
proof (intro conjI impI)
  show "(\<exists>j. ProcessFrontMatter j \<in> set (callsMade s (stateOf (updateNote h s notePath col))))
       \<longleftrightarrow> needsUpdate (settings s) col (getFileCache s fl)"
  proof
    assume w: "\<exists>j. ProcessFrontMatter j \<in> set (callsMade s (stateOf (updateNote h s notePath col)))"
    show "needsUpdate (settings s) col (getFileCache s fl)"
    proof (rule ccontr)
      assume "\<not> needsUpdate (settings s) col (getFileCache s fl)"
      then have "updateNote h s notePath col = Returns s"
        using assms by (simp add: updateNote_skip)
      with w show False by (simp add: callsMade_def)
    qed
  next
    assume "needsUpdate (settings s) col (getFileCache s fl)"
    from updateNote_calls_write[OF assms this]
    show "\<exists>j. ProcessFrontMatter j \<in> set (callsMade s (stateOf (updateNote h s notePath col)))"
      by (metis list.set_intros(1))
  qed
next
  assume "needsUpdate (settings s) col (getFileCache s fl)"
  then show "\<exists>rest. callsMade s (stateOf (updateNote h s notePath col)) = ProcessFrontMatter fl # rest"
    using updateNote_calls_write[OF assms] by blast
next
  assume "\<not> needsUpdate (settings s) col (getFileCache s fl)"
  then show "updateNote h s notePath col = Returns s"
    using assms by (simp add: updateNote_skip)
next
  show "needsUpdate (settings s) col (getFileCache s fl)
        = (fieldOrNull (getFileCache s fl) (statusPropertyName (settings s)) \<noteq> JString (status col)
           \<or> (isQuadrant col
               \<and> (fieldOrNull (getFileCache s fl) (js ''urgent'') \<noteq> q_urgent col
                   \<or> fieldOrNull (getFileCache s fl) (js ''important'') \<noteq> q_important col)))"
    by (auto simp: needsUpdate_def Let_def)
qed

text \<open>
  After \<open>updateNote\<close>, whatever the host does, the vault has the same notes, and in every
  note every frontmatter field other than the status property, and other than \<open>urgent\<close>
  and \<open>important\<close> when the quadrant test of the code holds, has its previous value. A
  note other than the one the link resolves to keeps its whole frontmatter.
\<close>

lemma updateNote_preserves_fields:
  "length (files (stateOf (updateNote h s notePath col))) = length (files s)
   \<and> (\<forall>j k. j < length (files s) \<and> k \<noteq> statusPropertyName (settings s)
          \<and> (isQuadrant col \<longrightarrow> k \<noteq> js ''urgent'' \<and> k \<noteq> js ''important'')
        \<longrightarrow> theRecord (frontmatter (files (stateOf (updateNote h s notePath col)) ! j)) k
            = theRecord (frontmatter (files s ! j)) k)
   \<and> (\<forall>j. j < length (files s) \<and> getFirstLinkpathDest h s notePath \<noteq> Some j
        \<longrightarrow> frontmatter (files (stateOf (updateNote h s notePath col)) ! j)
            = frontmatter (files s ! j))"
proof -
  let ?t = "stateOf (updateNote h s notePath col)"
  let ?w = "\<lambda>fl. (map frontmatter (files s))
                 [fl := Some (writeFields (settings s) col (theRecord (getFileCache s fl)))]"
  from updateNote_result[of h s notePath col]
  have m: "map frontmatter (files ?t)
         = (case getFirstLinkpathDest h s notePath of
              None \<Rightarrow> map frontmatter (files s)
            | Some fl \<Rightarrow>
                if needsUpdate (settings s) col (getFileCache s fl) \<and> \<not> mutateMetadataFails h s fl
                then ?w fl else map frontmatter (files s))"
    by auto
  then have "length (map frontmatter (files ?t)) = length (map frontmatter (files s))"
    by (simp split: option.splits)
  then have len: "length (files ?t) = length (files s)" by simp
  have nth: "frontmatter (files ?t ! j) = map frontmatter (files ?t) ! j" if "j < length (files s)" for j
    using that len by simp
  have other: "frontmatter (files ?t ! j) = frontmatter (files s ! j)"
    if "j < length (files s)" "getFirstLinkpathDest h s notePath \<noteq> Some j" for j
    unfolding nth[OF that(1)] m using that
    by (auto split: option.splits)
  have field: "theRecord (frontmatter (files ?t ! j)) k = theRecord (frontmatter (files s ! j)) k"
    if "j < length (files s)" "k \<noteq> statusPropertyName (settings s)"
       "isQuadrant col \<longrightarrow> k \<noteq> js ''urgent'' \<and> k \<noteq> js ''important''" for j k
  proof (cases "getFirstLinkpathDest h s notePath = Some j")
    case False
    then show ?thesis using other[OF that(1)] by simp
  next
    case True
    show ?thesis unfolding nth[OF that(1)] m using that True
      by (simp add: writeFields_other getFileCache_def)
  qed
  show ?thesis using len other field by blast
qed

lemmas sync_eval = updateNote_def updateNoteTry_def getFirstLinkpathDest_def getFileCache_def
  needsUpdate_def fieldOrNull_def getField_def setField_def writeFields_def
  processFrontMatter_def resolvePlacement_def archiveNote_def unarchiveNote_def stripArchive_def parent_path_def createFolder_def
  renameFile_def getAbstractFileByPath_def called_def log_def notify_def ARCHIVE_STATUSES_def
  status_def isQuadrant_def q_urgent_def q_important_def QUADRANT_MAP_def Object_prototype_def
  hostOk_def hostMoveFails_def vaultOf_def Let_def dirname_def name_def endsWith_def js_def

text \<open>
  A note without frontmatter is written, and the same note with the status of the column
  is skipped.
\<close>

lemma write_iff_needsUpdate_example:
  "getFirstLinkpathDest hostOk (vaultOf (js ''notes/x.md'') None) (js ''x'') = Some 0
   \<and> needsUpdate (settings (vaultOf (js ''notes/x.md'') None)) (js ''todo'')
        (getFileCache (vaultOf (js ''notes/x.md'') None) 0)
   \<and> (\<exists>rest. callsMade (vaultOf (js ''notes/x.md'') None)
          (stateOf (updateNote hostOk (vaultOf (js ''notes/x.md'') None) (js ''x'') (js ''todo'')))
        = ProcessFrontMatter 0 # rest)
   \<and> \<not> needsUpdate (settings (vaultOf (js ''notes/x.md'') None)) (js ''todo'')
        (Some [js ''status'' \<mapsto> JString (js ''todo'')])
   \<and> updateNote hostOk (vaultOf (js ''notes/x.md'') (Some [js ''status'' \<mapsto> JString (js ''todo'')]))
        (js ''x'') (js ''todo'')
       = Returns (vaultOf (js ''notes/x.md'') (Some [js ''status'' \<mapsto> JString (js ''todo'')]))"
proof -
  let ?s = "vaultOf (js ''notes/x.md'') None"
  let ?t = "vaultOf (js ''notes/x.md'') (Some [js ''status'' \<mapsto> JString (js ''todo'')])"
  have r: "getFirstLinkpathDest hostOk ?s (js ''x'') = Some 0"
    "getFirstLinkpathDest hostOk ?t (js ''x'') = Some 0"
    by (simp_all add: getFirstLinkpathDest_def hostOk_def vaultOf_def)
  have n: "needsUpdate (settings ?s) (js ''todo'') (getFileCache ?s 0)"
    by (simp add: sync_eval)
  have c: "getFileCache ?t 0 = Some [js ''status'' \<mapsto> JString (js ''todo'')]"
    "settings ?t = settings ?s"
    by (simp_all add: getFileCache_def vaultOf_def)
  have m: "\<not> needsUpdate (settings ?s) (js ''todo'') (Some [js ''status'' \<mapsto> JString (js ''todo'')])"
    by (simp add: sync_eval)
  from write_iff_needsUpdate[OF r(1), of "js ''todo''"] n
  have 1: "\<exists>rest. callsMade ?s (stateOf (updateNote hostOk ?s (js ''x'') (js ''todo'')))
        = ProcessFrontMatter 0 # rest" by blast
  from write_iff_needsUpdate[OF r(2), of "js ''todo''"] m c
  have 2: "updateNote hostOk ?t (js ''x'') (js ''todo'') = Returns ?t" by simp
  from r(1) n 1 m 2 show ?thesis by blast
qed

text \<open>
  At the column \<open>in-progress\<close> and a note with the fields \<open>urgent\<close> and \<open>important\<close>, both
  are left as they were, and the status is written.
\<close>

lemma updateNote_preserves_fields_example:
  "theRecord (frontmatter (files (stateOf (updateNote hostOk
       (vaultOf (js ''notes/x.md'') (Some [js ''urgent'' \<mapsto> JBool True, js ''important'' \<mapsto> JNull]))
       (js ''x'') (js ''in-progress''))) ! 0)) (js ''urgent'') = Some (JBool True)
   \<and> theRecord (frontmatter (files (stateOf (updateNote hostOk
       (vaultOf (js ''notes/x.md'') (Some [js ''urgent'' \<mapsto> JBool True, js ''important'' \<mapsto> JNull]))
       (js ''x'') (js ''in-progress''))) ! 0)) (js ''important'') = Some JNull
   \<and> theRecord (frontmatter (files (stateOf (updateNote hostOk
       (vaultOf (js ''notes/x.md'') (Some [js ''urgent'' \<mapsto> JBool True, js ''important'' \<mapsto> JNull]))
       (js ''x'') (js ''in-progress''))) ! 0)) (js ''status'') = Some (JString (js ''in-progress''))"
proof -
  let ?s = "vaultOf (js ''notes/x.md'') (Some [js ''urgent'' \<mapsto> JBool True, js ''important'' \<mapsto> JNull])"
  let ?t = "stateOf (updateNote hostOk ?s (js ''x'') (js ''in-progress''))"
  have q: "\<not> isQuadrant (js ''in-progress'')"
    by (simp add: isQuadrant_def QUADRANT_MAP_def Object_prototype_def js_def)
  have k: "js ''urgent'' \<noteq> statusPropertyName (settings ?s)"
    "js ''important'' \<noteq> statusPropertyName (settings ?s)" "0 < length (files ?s)"
    by (simp_all add: vaultOf_def js_def)
  have old: "theRecord (frontmatter (files ?s ! 0)) (js ''urgent'') = Some (JBool True)"
    "theRecord (frontmatter (files ?s ! 0)) (js ''important'') = Some JNull"
    by (simp_all add: vaultOf_def js_def)
  from updateNote_preserves_fields[of hostOk ?s "js ''x''" "js ''in-progress''"] q k
  have "theRecord (frontmatter (files ?t ! 0)) (js ''urgent'')
          = theRecord (frontmatter (files ?s ! 0)) (js ''urgent'')"
       "theRecord (frontmatter (files ?t ! 0)) (js ''important'')
          = theRecord (frontmatter (files ?s ! 0)) (js ''important'')"
    by blast+
  moreover have "theRecord (frontmatter (files ?t ! 0)) (js ''status'') = Some (JString (js ''in-progress''))"
    by (simp add: sync_eval)
  ultimately show ?thesis using old by simp
qed

lemma updateAll_foldl:
  "updateAll h s us
     = Returns (foldl (\<lambda>t u. stateOf (updateNote h t (linkPath u) (columnName u))) s us)"
proof (induction us arbitrary: s)
  case Nil
  show ?case by simp
next
  case (Cons u us)
  obtain s1 where "updateNote h s (linkPath u) (columnName u) = Returns s1"
    using updateNote_Returns by blast
  then show ?case using Cons[of s1] by simp
qed

lemma move_fails_keeps_write:
  assumes r: "getFirstLinkpathDest h s notePath = Some fl"
    and n: "needsUpdate (settings s) col (getFileCache s fl)"
    and w: "\<not> mutateMetadataFails h s fl"
    and t: "resolvePlacement h (notify (log (written s fl col))) fl (status col) = Throws t"
  shows "updateNote h s notePath col = Returns (called ConsoleError t)"
    "frontmatter (files t ! fl) = Some (writeFields (settings s) col (theRecord (getFileCache s fl)))"
    "path (files t ! fl) = path (files s ! fl)"
    "\<exists>cs. calls t = calls s @ ProcessFrontMatter fl # cs"
proof -
  show "updateNote h s notePath col = Returns (called ConsoleError t)"
    unfolding updateNote_write[OF r n w] t by simp
  have f: "files t = files (written s fl col)"
    using resolvePlacement_Throws[OF t] by (simp add: notify_simps log_simps)
  have len: "fl < length (files s)" using r by (rule resolved_in_range)
  show "frontmatter (files t ! fl) = Some (writeFields (settings s) col (theRecord (getFileCache s fl)))"
    unfolding f using len by (simp add: written_def called_simps)
  show "path (files t ! fl) = path (files s ! fl)"
    unfolding f using len by (simp add: written_def called_simps)
  from sameNotes_written_placement[of s fl col h "status col"] t
  show "\<exists>cs. calls t = calls s @ ProcessFrontMatter fl # cs"
    unfolding sameNotes_def by (auto simp: written_simps(5))
qed

text \<open>
  C7. On every host \<open>updateNote\<close> returns: an exception of its \<open>try\<close> block is caught
  and reported on the console. So the loop of \<open>syncBoard\<close>, which an exception would end,
  runs \<open>updateNote\<close> on every pair in order. When the metadata write fails, \<open>updateNote\<close>
  returns after the report. When the write succeeds and placement then throws (folder
  creation or move failed), \<open>updateNote\<close> returns after the report, the note has the
  written frontmatter and its former path, and the write precedes every placement call: the
  write is not undone.
\<close>

theorem update_errors_isolated:
  "(\<exists>s1. updateNote h s notePath col = Returns s1)
   \<and> updateAll h s us
       = Returns (foldl (\<lambda>t u. stateOf (updateNote h t (linkPath u) (columnName u))) s us)
   \<and> (getFirstLinkpathDest h s notePath = Some fl
        \<and> needsUpdate (settings s) col (getFileCache s fl) \<and> mutateMetadataFails h s fl
       \<longrightarrow> updateNote h s notePath col
            = Returns (called ConsoleError (called (ProcessFrontMatter fl) s)))
   \<and> (getFirstLinkpathDest h s notePath = Some fl
        \<and> needsUpdate (settings s) col (getFileCache s fl) \<and> \<not> mutateMetadataFails h s fl
        \<and> resolvePlacement h (notify (log (written s fl col))) fl (status col) = Throws t
       \<longrightarrow> updateNote h s notePath col = Returns (called ConsoleError t)
           \<and> frontmatter (files t ! fl)
               = Some (writeFields (settings s) col (theRecord (getFileCache s fl)))
           \<and> path (files t ! fl) = path (files s ! fl)
           \<and> (\<exists>cs. calls t = calls s @ ProcessFrontMatter fl # cs))"
proof (intro conjI impI)
  show "\<exists>s1. updateNote h s notePath col = Returns s1" by (rule updateNote_Returns)
  show "updateAll h s us
       = Returns (foldl (\<lambda>t u. stateOf (updateNote h t (linkPath u) (columnName u))) s us)"
    by (rule updateAll_foldl)
next
  assume "getFirstLinkpathDest h s notePath = Some fl
        \<and> needsUpdate (settings s) col (getFileCache s fl) \<and> mutateMetadataFails h s fl"
  then show "updateNote h s notePath col
            = Returns (called ConsoleError (called (ProcessFrontMatter fl) s))"
    by (simp add: updateNote_write_fails)
next
  assume a: "getFirstLinkpathDest h s notePath = Some fl
        \<and> needsUpdate (settings s) col (getFileCache s fl) \<and> \<not> mutateMetadataFails h s fl
        \<and> resolvePlacement h (notify (log (written s fl col))) fl (status col) = Throws t"
  then have r: "getFirstLinkpathDest h s notePath = Some fl"
    and n: "needsUpdate (settings s) col (getFileCache s fl)"
    and w: "\<not> mutateMetadataFails h s fl"
    and t: "resolvePlacement h (notify (log (written s fl col))) fl (status col) = Throws t"
    by blast+
  show "updateNote h s notePath col = Returns (called ConsoleError t)"
    "frontmatter (files t ! fl)
               = Some (writeFields (settings s) col (theRecord (getFileCache s fl)))"
    "path (files t ! fl) = path (files s ! fl)"
    "\<exists>cs. calls t = calls s @ ProcessFrontMatter fl # cs"
    using move_fails_keeps_write[OF r n w t] by blast+
qed

text \<open>
  C7 on a host whose moves fail, at the note \<open>tasks/x.md\<close> linked under \<open>done\<close> and then
  under \<open>doing\<close>: the failed move leaves the status \<open>done\<close> written, and the second pair
  is processed.
\<close>

theorem update_errors_isolated_witness:
  "(\<exists>t. resolvePlacement hostMoveFails
           (notify (log (written (vaultOf (js ''tasks/x.md'') None) 0 (js ''done'')))) 0
           (status (js ''done'')) = Throws t
        \<and> updateNote hostMoveFails (vaultOf (js ''tasks/x.md'') None) (js ''x'') (js ''done'')
            = Returns (called ConsoleError t)
        \<and> theRecord (frontmatter (files t ! 0)) (js ''status'') = Some (JString (js ''done''))
        \<and> path (files t ! 0) = js ''tasks/x.md'')
   \<and> (\<exists>s2. updateAll hostMoveFails (vaultOf (js ''tasks/x.md'') None)
               [\<lparr>linkPath = js ''x'', columnName = js ''done''\<rparr>,
                \<lparr>linkPath = js ''x'', columnName = js ''doing''\<rparr>] = Returns s2
         \<and> theRecord (frontmatter (files s2 ! 0)) (js ''status'') = Some (JString (js ''doing''))
         \<and> calls s2 = [ProcessFrontMatter 0, CreateFolder (js ''tasks/archive''),
                        RenameFile 0 (js ''tasks/archive/x.md''), ConsoleError,
                        ProcessFrontMatter 0])"
proof -
  let ?s = "vaultOf (js ''tasks/x.md'') None"
  have r: "getFirstLinkpathDest hostMoveFails ?s (js ''x'') = Some 0"
    by (simp add: getFirstLinkpathDest_def hostMoveFails_def hostOk_def vaultOf_def)
  have n: "needsUpdate (settings ?s) (js ''done'') (getFileCache ?s 0)"
    by (simp add: sync_eval)
  have w: "\<not> mutateMetadataFails hostMoveFails ?s 0"
    by (simp add: hostMoveFails_def hostOk_def)
  have "\<exists>t. resolvePlacement hostMoveFails (notify (log (written ?s 0 (js ''done'')))) 0
           (status (js ''done'')) = Throws t"
    by (simp add: sync_eval written_def)
  then obtain t where t: "resolvePlacement hostMoveFails (notify (log (written ?s 0 (js ''done'')))) 0
           (status (js ''done'')) = Throws t" ..
  from update_errors_isolated[of hostMoveFails ?s "js ''x''" "js ''done''" _ 0 t] r n w t
  have u: "updateNote hostMoveFails ?s (js ''x'') (js ''done'') = Returns (called ConsoleError t)"
    and f: "frontmatter (files t ! 0)
               = Some (writeFields (settings ?s) (js ''done'') (theRecord (getFileCache ?s 0)))"
    and p: "path (files t ! 0) = path (files ?s ! 0)"
    by blast+
  have 1: "theRecord (frontmatter (files t ! 0)) (js ''status'') = Some (JString (js ''done''))"
    unfolding f by (simp add: sync_eval)
  have 2: "path (files t ! 0) = js ''tasks/x.md''"
    unfolding p by (simp add: vaultOf_def)
  let ?us = "[\<lparr>linkPath = js ''x'', columnName = js ''done''\<rparr>,
                \<lparr>linkPath = js ''x'', columnName = js ''doing''\<rparr>]"
  let ?s2 = "foldl (\<lambda>t u. stateOf (updateNote hostMoveFails t (linkPath u) (columnName u))) ?s ?us"
  have 3: "updateAll hostMoveFails ?s ?us = Returns ?s2"
    using update_errors_isolated[of hostMoveFails ?s _ _ ?us] by blast
  have 4: "theRecord (frontmatter (files ?s2 ! 0)) (js ''status'') = Some (JString (js ''doing''))"
    by (simp add: sync_eval)
  have 5: "calls ?s2 = [ProcessFrontMatter 0, CreateFolder (js ''tasks/archive''),
                        RenameFile 0 (js ''tasks/archive/x.md''), ConsoleError,
                        ProcessFrontMatter 0]"
    by (simp add: sync_eval)
  from t u 1 2 3 4 5 show ?thesis by blast
qed

text \<open>
  Outside the names inherited from \<open>Object.prototype\<close> the code agrees with the column
  policy of the spec: the same quadrants, and the same test for an update.
\<close>

lemma isQuadrant_reserved:
  "col \<notin> set Object_prototype \<Longrightarrow> isQuadrant col = isReservedQuadrant col"
  by (simp add: isQuadrant_def isReservedQuadrant_def)

lemma needsUpdate_spec:
  "col \<notin> set Object_prototype \<Longrightarrow> needsUpdate st col cache = needsUpdateSpec st col cache"
  by (auto simp: needsUpdate_def needsUpdateSpec_def isQuadrant_def isReservedQuadrant_def
      status_def targetStatus_def Let_def)

text \<open>
  A write that does not fail leaves the note with the fields \<open>writeFields\<close> stores: the
  target status under the status property (unless that is \<open>__proto__\<close>, or a flag name
  that a quadrant then overwrites) and, for a quadrant, the target flags.
\<close>

lemma updateNote_writes_target:
  assumes r: "getFirstLinkpathDest h s notePath = Some fl"
    and n: "needsUpdate (settings s) col (getFileCache s fl)"
    and w: "\<not> mutateMetadataFails h s fl"
  shows "frontmatter (files (stateOf (updateNote h s notePath col)) ! fl)
           = Some (writeFields (settings s) col (theRecord (getFileCache s fl)))"
    "statusPropertyName (settings s) \<noteq> js ''__proto__'' \<Longrightarrow>
     (isQuadrant col \<longrightarrow> statusPropertyName (settings s) \<noteq> js ''urgent''
                        \<and> statusPropertyName (settings s) \<noteq> js ''important'') \<Longrightarrow>
     getField (theRecord (frontmatter (files (stateOf (updateNote h s notePath col)) ! fl)))
        (statusPropertyName (settings s)) = JString (status col)"
    "isQuadrant col \<Longrightarrow>
     getField (theRecord (frontmatter (files (stateOf (updateNote h s notePath col)) ! fl)))
        (js ''urgent'') = q_urgent col
     \<and> getField (theRecord (frontmatter (files (stateOf (updateNote h s notePath col)) ! fl)))
        (js ''important'') = q_important col"
proof -
  let ?t = "stateOf (updateNote h s notePath col)"
  have fl: "fl < length (files s)" using r by (rule resolved_in_range)
  from updateNote_result[of h s notePath col] r n w
  have m: "map frontmatter (files ?t) = (map frontmatter (files s))
             [fl := Some (writeFields (settings s) col (theRecord (getFileCache s fl)))]"
    by auto
  then have "length (map frontmatter (files ?t)) = length (map frontmatter (files s))" by simp
  then have len: "length (files ?t) = length (files s)" by simp
  have "frontmatter (files ?t ! fl) = map frontmatter (files ?t) ! fl"
    using fl len by simp
  then show f: "frontmatter (files ?t ! fl)
           = Some (writeFields (settings s) col (theRecord (getFileCache s fl)))"
    unfolding m using fl by simp
  show "getField (theRecord (frontmatter (files ?t ! fl))) (statusPropertyName (settings s))
          = JString (status col)"
    if "statusPropertyName (settings s) \<noteq> js ''__proto__''"
      "isQuadrant col \<longrightarrow> statusPropertyName (settings s) \<noteq> js ''urgent''
                        \<and> statusPropertyName (settings s) \<noteq> js ''important''"
    unfolding f using writeFields_status[OF that] by simp
  show "getField (theRecord (frontmatter (files ?t ! fl))) (js ''urgent'') = q_urgent col
     \<and> getField (theRecord (frontmatter (files ?t ! fl))) (js ''important'') = q_important col"
    if "isQuadrant col"
    unfolding f using writeFields_flags[OF that] by simp
qed

text \<open>
  C4, at the column \<open>constructor\<close> and a note whose status is already \<open>constructor\<close>.
  The column is none of the four quadrant names, its target status is the column name,
  and the test of the spec finds no update needed. The code takes the column as a
  quadrant, because \<open>in\<close> finds the inherited property: \<open>updateNote\<close> calls
  \<open>processFrontMatter\<close>, sets the status to \<open>backlog\<close> and the two flags to \<open>undefined\<close>.
\<close>

theorem needsUpdate_inherited_column:
  "\<not> isReservedQuadrant (js ''constructor'')
   \<and> targetStatus (js ''constructor'') = js ''constructor''
   \<and> \<not> needsUpdateSpec
         (settings (vaultOf (js ''notes/x.md'') (Some [js ''status'' \<mapsto> JString (js ''constructor'')])))
         (js ''constructor'')
         (getFileCache (vaultOf (js ''notes/x.md'') (Some [js ''status'' \<mapsto> JString (js ''constructor'')])) 0)
   \<and> getFirstLinkpathDest hostOk
         (vaultOf (js ''notes/x.md'') (Some [js ''status'' \<mapsto> JString (js ''constructor'')]))
         (js ''x'') = Some 0
   \<and> updateNote hostOk
         (vaultOf (js ''notes/x.md'') (Some [js ''status'' \<mapsto> JString (js ''constructor'')]))
         (js ''x'') (js ''constructor'')
       = Returns ((vaultOf (js ''notes/x.md'')
                     (Some [js ''status'' \<mapsto> JString (js ''backlog''),
                            js ''urgent'' \<mapsto> JUndefined, js ''important'' \<mapsto> JUndefined]))
                   \<lparr>calls := [ProcessFrontMatter 0]\<rparr>)"
proof -
  let ?s = "vaultOf (js ''notes/x.md'') (Some [js ''status'' \<mapsto> JString (js ''constructor'')])"
  have 1: "\<not> isReservedQuadrant (js ''constructor'')"
    "targetStatus (js ''constructor'') = js ''constructor''"
    by (simp_all add: isReservedQuadrant_def targetStatus_def QUADRANT_MAP_def js_def)
  have 2: "\<not> needsUpdateSpec (settings ?s) (js ''constructor'') (getFileCache ?s 0)"
    using 1 by (simp add: needsUpdateSpec_def getFileCache_def vaultOf_def fieldOrNull_def getField_def)
  have 3: "getFirstLinkpathDest hostOk ?s (js ''x'') = Some 0"
    by (simp add: getFirstLinkpathDest_def hostOk_def vaultOf_def)
  have 4: "updateNote hostOk ?s (js ''x'') (js ''constructor'')
       = Returns ((vaultOf (js ''notes/x.md'')
                     (Some [js ''status'' \<mapsto> JString (js ''backlog''),
                            js ''urgent'' \<mapsto> JUndefined, js ''important'' \<mapsto> JUndefined]))
                   \<lparr>calls := [ProcessFrontMatter 0]\<rparr>)"
    by (simp add: sync_eval)
  from 1 2 3 4 show ?thesis by blast
qed

text \<open>
  C4 at that note, read off: the current status equals the target status of the column
  policy and the column is no quadrant, and still \<open>updateNote\<close> has called
  \<open>processFrontMatter\<close>.
\<close>

theorem needsUpdate_inherited_column_witness:
  "fieldOrNull
      (getFileCache (vaultOf (js ''notes/x.md'') (Some [js ''status'' \<mapsto> JString (js ''constructor'')])) 0)
      (statusPropertyName
        (settings (vaultOf (js ''notes/x.md'') (Some [js ''status'' \<mapsto> JString (js ''constructor'')]))))
     = JString (targetStatus (js ''constructor''))
   \<and> \<not> isReservedQuadrant (js ''constructor'')
   \<and> calls (stateOf (updateNote hostOk
         (vaultOf (js ''notes/x.md'') (Some [js ''status'' \<mapsto> JString (js ''constructor'')]))
         (js ''x'') (js ''constructor''))) = [ProcessFrontMatter 0]"
  using needsUpdate_inherited_column by (simp add: needsUpdateSpec_def)

text \<open>
  C8, at the column \<open>constructor\<close>, which is none of the four quadrant names, and a note
  with \<open>urgent: true\<close> and \<open>important: false\<close>, the status property being \<open>status\<close>:
  after \<open>updateNote\<close> both flags are \<open>undefined\<close>, because the code takes the column as a
  quadrant.
\<close>

theorem flags_overwritten_inherited_column:
  "\<not> isReservedQuadrant (js ''constructor'')
   \<and> statusPropertyName (settings (vaultOf (js ''notes/x.md'')
         (Some [js ''urgent'' \<mapsto> JBool True, js ''important'' \<mapsto> JBool False]))) = js ''status''
   \<and> theRecord (frontmatter (files (vaultOf (js ''notes/x.md'')
         (Some [js ''urgent'' \<mapsto> JBool True, js ''important'' \<mapsto> JBool False])) ! 0))
        (js ''urgent'') = Some (JBool True)
   \<and> theRecord (frontmatter (files (vaultOf (js ''notes/x.md'')
         (Some [js ''urgent'' \<mapsto> JBool True, js ''important'' \<mapsto> JBool False])) ! 0))
        (js ''important'') = Some (JBool False)
   \<and> theRecord (frontmatter (files (stateOf (updateNote hostOk (vaultOf (js ''notes/x.md'')
         (Some [js ''urgent'' \<mapsto> JBool True, js ''important'' \<mapsto> JBool False]))
         (js ''x'') (js ''constructor''))) ! 0)) (js ''urgent'') = Some JUndefined
   \<and> theRecord (frontmatter (files (stateOf (updateNote hostOk (vaultOf (js ''notes/x.md'')
         (Some [js ''urgent'' \<mapsto> JBool True, js ''important'' \<mapsto> JBool False]))
         (js ''x'') (js ''constructor''))) ! 0)) (js ''important'') = Some JUndefined"
proof -
  have 1: "\<not> isReservedQuadrant (js ''constructor'')"
    by (simp add: isReservedQuadrant_def QUADRANT_MAP_def js_def)
  have 2: "statusPropertyName (settings (vaultOf (js ''notes/x.md'')
         (Some [js ''urgent'' \<mapsto> JBool True, js ''important'' \<mapsto> JBool False]))) = js ''status''"
    by (simp add: vaultOf_def)
  have 3: "theRecord (frontmatter (files (vaultOf (js ''notes/x.md'')
         (Some [js ''urgent'' \<mapsto> JBool True, js ''important'' \<mapsto> JBool False])) ! 0))
        (js ''urgent'') = Some (JBool True)"
    "theRecord (frontmatter (files (vaultOf (js ''notes/x.md'')
         (Some [js ''urgent'' \<mapsto> JBool True, js ''important'' \<mapsto> JBool False])) ! 0))
        (js ''important'') = Some (JBool False)"
    by (simp_all add: vaultOf_def js_def)
  have 4: "theRecord (frontmatter (files (stateOf (updateNote hostOk (vaultOf (js ''notes/x.md'')
         (Some [js ''urgent'' \<mapsto> JBool True, js ''important'' \<mapsto> JBool False]))
         (js ''x'') (js ''constructor''))) ! 0)) (js ''urgent'') = Some JUndefined"
    "theRecord (frontmatter (files (stateOf (updateNote hostOk (vaultOf (js ''notes/x.md'')
         (Some [js ''urgent'' \<mapsto> JBool True, js ''important'' \<mapsto> JBool False]))
         (js ''x'') (js ''constructor''))) ! 0)) (js ''important'') = Some JUndefined"
    by (simp_all add: sync_eval)
  from 1 2 3 4 show ?thesis by blast
qed

section \<open>Idempotence of the sync\<close>

lemma quadrant_own:
  assumes "isQuadrant col" "col \<notin> set Object_prototype"
  shows "\<exists>q. map_of QUADRANT_MAP col = Some q"
proof -
  from assms have "col \<in> fst ` set QUADRANT_MAP" by (simp add: isQuadrant_def)
  then show ?thesis by (metis map_of_eq_None_iff not_Some_eq)
qed

lemma fieldOrNull_theRecord:
  "k \<notin> set Object_prototype \<Longrightarrow> fieldOrNull (Some (theRecord cache)) k = fieldOrNull cache k"
  by (cases cache) (simp_all add: fieldOrNull_def getField_def)

lemma fieldOrNull_value:
  "getField fm k = v \<Longrightarrow> v \<noteq> JUndefined \<Longrightarrow> fieldOrNull (Some fm) k = v"
  by (cases v) (simp_all add: fieldOrNull_def)

lemma written_settles:
  assumes "plainColumn (statusPropertyName st) col"
  shows "\<not> needsUpdate st col (Some (writeFields st col fm))"
proof -
  let ?new = "writeFields st col fm"
  have sp: "statusPropertyName st \<noteq> js ''__proto__''"
    "isQuadrant col \<longrightarrow> statusPropertyName st \<noteq> js ''urgent'' \<and> statusPropertyName st \<noteq> js ''important''"
    using assms by (auto simp: plainColumn_def)
  have st: "fieldOrNull (Some ?new) (statusPropertyName st) = JString (status col)"
    by (rule fieldOrNull_value[OF writeFields_status[OF sp]]) simp
  show ?thesis
  proof (cases "isQuadrant col")
    case False
    then show ?thesis using st by (simp add: needsUpdate_def Let_def)
  next
    case True
    with assms obtain q where q: "map_of QUADRANT_MAP col = Some q"
      using quadrant_own by (auto simp: plainColumn_def)
    have "fieldOrNull (Some ?new) (js ''urgent'') = q_urgent col"
      by (rule fieldOrNull_value[OF writeFields_flags(1)[OF True]]) (simp add: q_urgent_def q)
    moreover have "fieldOrNull (Some ?new) (js ''important'') = q_important col"
      by (rule fieldOrNull_value[OF writeFields_flags(2)[OF True]]) (simp add: q_important_def q)
    ultimately show ?thesis using st True by (simp add: needsUpdate_def Let_def)
  qed
qed

lemma written_keeps_settled:
  assumes c: "compatible col d"
    and pc: "plainColumn (statusPropertyName st) col" and pd: "plainColumn (statusPropertyName st) d"
    and old: "\<not> needsUpdate st d cache"
  shows "\<not> needsUpdate st d (Some (writeFields st col (theRecord cache)))"
proof -
  let ?sp = "statusPropertyName st"
  let ?new = "writeFields st col (theRecord cache)"
  have sp: "?sp \<noteq> js ''__proto__''"
    "isQuadrant col \<longrightarrow> ?sp \<noteq> js ''urgent'' \<and> ?sp \<noteq> js ''important''"
    using pc by (auto simp: plainColumn_def)
  have "fieldOrNull (Some ?new) ?sp = JString (status col)"
    by (rule fieldOrNull_value[OF writeFields_status[OF sp]]) simp
  then have st: "fieldOrNull (Some ?new) ?sp = JString (status d)"
    using c by (simp add: compatible_def)
  show ?thesis
  proof (cases "isQuadrant d")
    case False
    then show ?thesis using st by (simp add: needsUpdate_def Let_def)
  next
    case dq: True
    then have spd: "?sp \<noteq> js ''urgent''" "?sp \<noteq> js ''important''"
      using pd by (auto simp: plainColumn_def)
    from dq pd obtain q where q: "map_of QUADRANT_MAP d = Some q"
      using quadrant_own by (auto simp: plainColumn_def)
    from old dq have o: "fieldOrNull cache (js ''urgent'') = q_urgent d"
      "fieldOrNull cache (js ''important'') = q_important d"
      by (auto simp: needsUpdate_def Let_def)
    have "fieldOrNull (Some ?new) (js ''urgent'') = q_urgent d
        \<and> fieldOrNull (Some ?new) (js ''important'') = q_important d"
    proof (cases "isQuadrant col")
      case True
      then have e: "q_urgent col = q_urgent d" "q_important col = q_important d"
        using c dq by (auto simp: compatible_def)
      have "fieldOrNull (Some ?new) (js ''urgent'') = q_urgent col"
        by (rule fieldOrNull_value[OF writeFields_flags(1)[OF True]]) (simp only: e, simp add: q_urgent_def q)
      moreover have "fieldOrNull (Some ?new) (js ''important'') = q_important col"
        by (rule fieldOrNull_value[OF writeFields_flags(2)[OF True]]) (simp only: e, simp add: q_important_def q)
      ultimately show ?thesis using e by simp
    next
      case False
      then have "?new (js ''urgent'') = theRecord cache (js ''urgent'')"
        "?new (js ''important'') = theRecord cache (js ''important'')"
        using spd by (simp_all add: writeFields_other)
      then have "fieldOrNull (Some ?new) (js ''urgent'') = fieldOrNull (Some (theRecord cache)) (js ''urgent'')"
        "fieldOrNull (Some ?new) (js ''important'') = fieldOrNull (Some (theRecord cache)) (js ''important'')"
        by (simp_all add: fieldOrNull_def getField_def)
      then show ?thesis using o flag_keys(4,5) by (simp add: fieldOrNull_theRecord)
    qed
    then show ?thesis using st dq by (simp add: needsUpdate_def Let_def)
  qed
qed

lemma getFirstLinkpathDest_iff:
  "getFirstLinkpathDest h s l = Some fl \<longleftrightarrow> resolveLinkTarget h l = Some fl \<and> fl < length (files s)"
  by (auto simp: getFirstLinkpathDest_def split: option.splits)

lemma getFirstLinkpathDest_cong:
  "length (files t) = length (files s) \<Longrightarrow> getFirstLinkpathDest h t l = getFirstLinkpathDest h s l"
  by (simp add: getFirstLinkpathDest_def split: option.splits)

lemma updateNote_cache:
  fixes h s notePath col
  defines "t \<equiv> stateOf (updateNote h s notePath col)"
  shows "settings t = settings s" "length (files t) = length (files s)"
    "isUpdating t = isUpdating s"
    "j < length (files s) \<Longrightarrow> getFileCache t j =
       (if getFirstLinkpathDest h s notePath = Some j
           \<and> needsUpdate (settings s) col (getFileCache s j) \<and> \<not> mutateMetadataFails h s j
        then Some (writeFields (settings s) col (theRecord (getFileCache s j)))
        else getFileCache s j)"
proof -
  from updateNote_result[of h s notePath col]
  have st: "settings t = settings s" and up: "isUpdating t = isUpdating s"
    and m: "map frontmatter (files t)
         = (case getFirstLinkpathDest h s notePath of
              None \<Rightarrow> map frontmatter (files s)
            | Some fl \<Rightarrow>
                if needsUpdate (settings s) col (getFileCache s fl) \<and> \<not> mutateMetadataFails h s fl
                then (map frontmatter (files s))
                       [fl := Some (writeFields (settings s) col (theRecord (getFileCache s fl)))]
                else map frontmatter (files s))"
    unfolding t_def by auto
  show "settings t = settings s" by (rule st)
  show "isUpdating t = isUpdating s" by (rule up)
  from m have "length (map frontmatter (files t)) = length (map frontmatter (files s))"
    by (simp split: option.splits)
  then show len: "length (files t) = length (files s)" by simp
  assume j: "j < length (files s)"
  then have "getFileCache t j = map frontmatter (files t) ! j"
    using len by (simp add: getFileCache_def)
  also have "\<dots> = (if getFirstLinkpathDest h s notePath = Some j
           \<and> needsUpdate (settings s) col (getFileCache s j) \<and> \<not> mutateMetadataFails h s j
        then Some (writeFields (settings s) col (theRecord (getFileCache s j)))
        else getFileCache s j)"
  proof (cases "getFirstLinkpathDest h s notePath")
    case None
    then show ?thesis unfolding m using j by (simp add: getFileCache_def)
  next
    case (Some fl)
    then have "fl < length (files s)" by (simp add: getFirstLinkpathDest_iff)
    then have "fl < length (map frontmatter (files s))" by simp
    then show ?thesis unfolding m using j Some
      by (cases "fl = j") (simp_all add: getFileCache_def)
  qed
  finally show "getFileCache t j =
       (if getFirstLinkpathDest h s notePath = Some j
           \<and> needsUpdate (settings s) col (getFileCache s j) \<and> \<not> mutateMetadataFails h s j
        then Some (writeFields (settings s) col (theRecord (getFileCache s j)))
        else getFileCache s j)" .
qed

lemma updateNote_settles:
  assumes "writesSucceedDuring h s [u]" "plainColumn (statusPropertyName (settings s)) (columnName u)"
  shows "settled h (stateOf (updateNote h s (linkPath u) (columnName u))) u"
proof -
  let ?t = "stateOf (updateNote h s (linkPath u) (columnName u))"
  note c = updateNote_cache[where h = h and s = s and notePath = "linkPath u" and col = "columnName u"]
  have r: "getFirstLinkpathDest h ?t (linkPath u) = getFirstLinkpathDest h s (linkPath u)"
    by (rule getFirstLinkpathDest_cong) (rule c(2))
  show ?thesis
  proof (cases "getFirstLinkpathDest h s (linkPath u)")
    case None
    then show ?thesis by (simp add: settled_def r)
  next
    case (Some fl)
    then have fl: "fl < length (files s)" by (simp add: getFirstLinkpathDest_iff)
    have w: "\<not> (needsUpdate (settings s) (columnName u) (getFileCache s fl)
                \<and> mutateMetadataFails h s fl)"
      using assms(1) Some by simp
    have "\<not> needsUpdate (settings s) (columnName u) (getFileCache ?t fl)"
      unfolding c(4)[OF fl] using Some w written_settles[OF assms(2)] by auto
    then show ?thesis by (simp add: settled_def r Some c(1))
  qed
qed

lemma updateNote_keeps_settled:
  assumes pc: "plainColumn (statusPropertyName (settings s)) (columnName p)"
    and pu: "plainColumn (statusPropertyName (settings s)) (columnName u)"
    and co: "resolveLinkTarget h (linkPath p) \<noteq> None
             \<and> resolveLinkTarget h (linkPath p) = resolveLinkTarget h (linkPath u)
             \<longrightarrow> compatible (columnName p) (columnName u)"
    and old: "settled h s u"
  shows "settled h (stateOf (updateNote h s (linkPath p) (columnName p))) u"
proof -
  let ?t = "stateOf (updateNote h s (linkPath p) (columnName p))"
  note c = updateNote_cache[where h = h and s = s and notePath = "linkPath p" and col = "columnName p"]
  have r: "getFirstLinkpathDest h ?t (linkPath u) = getFirstLinkpathDest h s (linkPath u)"
    by (rule getFirstLinkpathDest_cong) (rule c(2))
  show ?thesis
  proof (cases "getFirstLinkpathDest h s (linkPath u)")
    case None
    then show ?thesis by (simp add: settled_def r)
  next
    case (Some fl)
    then have fl: "fl < length (files s)" and ru: "resolveLinkTarget h (linkPath u) = Some fl"
      by (simp_all add: getFirstLinkpathDest_iff)
    from old Some have o: "\<not> needsUpdate (settings s) (columnName u) (getFileCache s fl)"
      by (simp add: settled_def)
    have "\<not> needsUpdate (settings s) (columnName u) (getFileCache ?t fl)"
    proof (cases "getFirstLinkpathDest h s (linkPath p) = Some fl
           \<and> needsUpdate (settings s) (columnName p) (getFileCache s fl) \<and> \<not> mutateMetadataFails h s fl")
      case False
      then show ?thesis unfolding c(4)[OF fl] using o by auto
    next
      case True
      then have "resolveLinkTarget h (linkPath p) = Some fl" by (simp add: getFirstLinkpathDest_iff)
      with co ru have "compatible (columnName p) (columnName u)" by simp
      from written_keeps_settled[OF this pc pu o] True
      show ?thesis unfolding c(4)[OF fl] by simp
    qed
    then show ?thesis by (simp add: settled_def r Some c(1))
  qed
qed


lemma foldl_updateNote_frame:
  "settings (foldl (\<lambda>t u. stateOf (updateNote h t (linkPath u) (columnName u))) s us) = settings s"
  "length (files (foldl (\<lambda>t u. stateOf (updateNote h t (linkPath u) (columnName u))) s us))
     = length (files s)"
  by (induction us arbitrary: s) (simp_all add: updateNote_cache(1,2))

lemma writesSucceedDuring_append:
  "writesSucceedDuring h s (ps @ qs)
     = (writesSucceedDuring h s ps
        \<and> writesSucceedDuring h
            (foldl (\<lambda>t u. stateOf (updateNote h t (linkPath u) (columnName u))) s ps) qs)"
  by (induction ps arbitrary: s) simp_all

lemma foldl_updateNote_settled:
  assumes c: "consistentBoard h (statusPropertyName (settings s)) us"
  shows "writesSucceedDuring h s ps \<Longrightarrow> set ps \<subseteq> set us \<Longrightarrow>
     \<forall>u\<in>set ps. settled h (foldl (\<lambda>t u. stateOf (updateNote h t (linkPath u) (columnName u))) s ps) u"
proof (induction ps rule: rev_induct)
  case Nil
  show ?case by simp
next
  case (snoc p ps)
  let ?t = "foldl (\<lambda>t u. stateOf (updateNote h t (linkPath u) (columnName u))) s ps"
  have sp: "statusPropertyName (settings ?t) = statusPropertyName (settings s)"
    by (simp add: foldl_updateNote_frame(1))
  from snoc.prems have p: "p \<in> set us" and ps: "set ps \<subseteq> set us" by auto
  from snoc.prems(1) have w: "writesSucceedDuring h s ps" and wp: "writesSucceedDuring h ?t [p]"
    by (simp_all add: writesSucceedDuring_append)
  have plain: "plainColumn (statusPropertyName (settings ?t)) (columnName v)" if "v \<in> set us" for v
    using c that unfolding sp consistentBoard_def by blast
  have comp: "resolveLinkTarget h (linkPath p) \<noteq> None
             \<and> resolveLinkTarget h (linkPath p) = resolveLinkTarget h (linkPath v)
             \<longrightarrow> compatible (columnName p) (columnName v)" if "v \<in> set us" for v
    using c p that unfolding consistentBoard_def by blast
  have new: "settled h (stateOf (updateNote h ?t (linkPath p) (columnName p))) p"
    using updateNote_settles[OF wp plain[OF p]] .
  have old: "settled h (stateOf (updateNote h ?t (linkPath p) (columnName p))) v" if "v \<in> set ps" for v
  proof -
    from that ps have v: "v \<in> set us" by auto
    from snoc.IH[OF w ps] that have "settled h ?t v" by blast
    from updateNote_keeps_settled[OF plain[OF p] plain[OF v] comp[OF v] this] show ?thesis .
  qed
  show ?case using new old by auto
qed

lemma settled_noop: "settled h s u \<Longrightarrow> updateNote h s (linkPath u) (columnName u) = Returns s"
  by (cases "getFirstLinkpathDest h s (linkPath u)")
     (simp_all add: settled_def updateNote_unresolved updateNote_skip)

lemma all_settled_noop: "\<forall>u\<in>set us. settled h s u \<Longrightarrow> updateAll h s us = Returns s"
  by (induction us) (simp_all add: settled_noop)

lemma settled_isUpdating: "settled h (s\<lparr>isUpdating := b\<rparr>) u = settled h s u"
proof -
  have "getFirstLinkpathDest h (s\<lparr>isUpdating := b\<rparr>) l = getFirstLinkpathDest h s l" for l
    by (rule getFirstLinkpathDest_cong) simp
  moreover have "getFileCache (s\<lparr>isUpdating := b\<rparr>) j = getFileCache s j" for j
    by (simp add: getFileCache_def)
  ultimately show ?thesis by (simp add: settled_def split: option.splits)
qed

text \<open>
  The cases that \<open>plainColumn\<close> excludes: there a note that has just been written still
  needs an update.
\<close>

lemma status_urgent_never_settles:
  "statusPropertyName st = js ''urgent'' \<Longrightarrow>
   needsUpdate st doFirst (Some (writeFields st doFirst fm))"
  by (simp add: needsUpdate_def writeFields_def fieldOrNull_def getField_def setField_def Let_def
      doFirst_def isQuadrant_def status_def q_urgent_def q_important_def QUADRANT_MAP_def js_def)

lemma inherited_never_settles: "needsUpdate st (js ''constructor'') cache"
proof -
  have q: "isQuadrant (js ''constructor'')" "q_urgent (js ''constructor'') = JUndefined"
    by (simp_all add: isQuadrant_def q_urgent_def QUADRANT_MAP_def Object_prototype_def js_def)
  have "fieldOrNull cache k \<noteq> JUndefined" for k
    by (simp add: fieldOrNull_def split: option.splits jsvalue.splits)
  then show ?thesis using q by (simp add: needsUpdate_def Let_def)
qed
lemma status_proto_never_settles:
  "statusPropertyName st = js ''__proto__'' \<Longrightarrow>
   needsUpdate st (js ''todo'') (Some (writeFields st (js ''todo'') Map.empty))"
  by (simp add: needsUpdate_def writeFields_def fieldOrNull_def getField_def setField_def Let_def
      isQuadrant_def status_def QUADRANT_MAP_def Object_prototype_def js_def)

text \<open>
  C1, amended. Let a run of \<open>syncBoard\<close> read a board, and let a second run read the same
  text. If no metadata write of the first run fails, the link targets resolve to the same
  notes in both runs, every two links to the same note stand under columns with the same
  target status and, for two quadrants, the same flags, no column is named like an
  inherited property of \<open>QUADRANT_MAP\<close>, and the status property is not \<open>__proto__\<close>, nor
  \<open>urgent\<close> or \<open>important\<close> under a quadrant column, then the second run returns the
  state it started from: it makes no call at all, so no metadata write and no move.
\<close>

theorem syncBoard_idempotent:
  assumes "cachedRead h s board = Some content"
    and "cachedRead h (stateOf (syncBoard h s board)) board = Some content"
    and "writesSucceedDuring h (s\<lparr>isUpdating := True\<rparr>) (parseBoardContent content)"
    and "consistentBoard h (statusPropertyName (settings s)) (parseBoardContent content)"
  shows "syncBoard h (stateOf (syncBoard h s board)) board = Returns (stateOf (syncBoard h s board))
    \<and> callsMade (stateOf (syncBoard h s board))
         (stateOf (syncBoard h (stateOf (syncBoard h s board)) board)) = []"
proof -
  let ?us = "parseBoardContent content"
  let ?s1 = "stateOf (syncBoard h s board)"
  have again: "syncBoard h ?s1 board = Returns ?s1"
  proof (cases "?us = []")
    case True
    then have "syncBoard h s board = Returns s" using assms(1) by (simp add: syncBoard_def)
    then show ?thesis by simp
  next
    case False
    let ?t = "foldl (\<lambda>t u. stateOf (updateNote h t (linkPath u) (columnName u)))
                (s\<lparr>isUpdating := True\<rparr>) ?us"
    have first: "syncBoard h s board = Returns (?t\<lparr>isUpdating := False\<rparr>)"
      using assms(1) False by (simp add: syncBoard_def updateAll_foldl)
    have c: "consistentBoard h (statusPropertyName (settings (s\<lparr>isUpdating := True\<rparr>))) ?us"
      using assms(4) by simp
    have "\<forall>u\<in>set ?us. settled h ?t u"
      using foldl_updateNote_settled[OF c assms(3)] by simp
    then have "\<forall>u\<in>set ?us. settled h (?t\<lparr>isUpdating := True\<rparr>) u"
      by (simp add: settled_isUpdating)
    then have u: "updateAll h (?t\<lparr>isUpdating := True\<rparr>) ?us = Returns (?t\<lparr>isUpdating := True\<rparr>)"
      by (rule all_settled_noop)
    have r: "cachedRead h (?t\<lparr>isUpdating := False\<rparr>) board = Some content"
      using assms(2) first by simp
    have "syncBoard h (?t\<lparr>isUpdating := False\<rparr>) board = Returns (?t\<lparr>isUpdating := False\<rparr>)"
      using r False u by (simp add: syncBoard_def)
    then show ?thesis using first by simp
  qed
  then show ?thesis by (simp add: callsMade_def)
qed

lemmas sync_eval2 = sync_eval hostBoard_def syncBoard_def cachedRead_def

lemma parse_duplicate:
  "parseBoardContent (js ''## todo\<newline>[[x]]\<newline>## doing\<newline>[[x]]'')
     = [\<lparr>linkPath = js ''x'', columnName = js ''todo''\<rparr>,
        \<lparr>linkPath = js ''x'', columnName = js ''doing''\<rparr>]"
  by (simp add: parser_eval)

text \<open>
  C1 as stated fails on a board that links the note \<open>x\<close> under the column \<open>todo\<close> and
  again under \<open>doing\<close>: the text is the same in both runs, and the second run writes the
  metadata of the note twice.
\<close>

theorem syncBoard_twice_counterexample:
  "cachedRead (hostBoard (js ''## todo\<newline>[[x]]\<newline>## doing\<newline>[[x]]''))
      (stateOf (syncBoard (hostBoard (js ''## todo\<newline>[[x]]\<newline>## doing\<newline>[[x]]''))
                 (vaultOf (js ''notes/x.md'') None) 1)) 1
     = cachedRead (hostBoard (js ''## todo\<newline>[[x]]\<newline>## doing\<newline>[[x]]''))
         (vaultOf (js ''notes/x.md'') None) 1
   \<and> callsMade
        (stateOf (syncBoard (hostBoard (js ''## todo\<newline>[[x]]\<newline>## doing\<newline>[[x]]''))
                   (vaultOf (js ''notes/x.md'') None) 1))
        (stateOf (syncBoard (hostBoard (js ''## todo\<newline>[[x]]\<newline>## doing\<newline>[[x]]''))
           (stateOf (syncBoard (hostBoard (js ''## todo\<newline>[[x]]\<newline>## doing\<newline>[[x]]''))
                      (vaultOf (js ''notes/x.md'') None) 1)) 1))
     = [ProcessFrontMatter 0, ProcessFrontMatter 0]"
proof -
  let ?h = "hostBoard (js ''## todo\<newline>[[x]]\<newline>## doing\<newline>[[x]]'')"
  let ?s = "vaultOf (js ''notes/x.md'') None"
  let ?fm = "\<lambda>c. Some [js ''status'' \<mapsto> JString (js c)]"
  have r: "cachedRead ?h t b = Some (js ''## todo\<newline>[[x]]\<newline>## doing\<newline>[[x]]'')" for t b
    by (simp add: cachedRead_def hostBoard_def)
  have 1: "syncBoard ?h ?s 1
      = Returns ((vaultOf (js ''notes/x.md'') (?fm ''doing''))
                   \<lparr>calls := [ProcessFrontMatter 0, ProcessFrontMatter 0]\<rparr>)"
    unfolding syncBoard_def r option.case parse_duplicate
    by (simp add: sync_eval hostBoard_def)
  have 2: "syncBoard ?h ((vaultOf (js ''notes/x.md'') (?fm ''doing''))
                   \<lparr>calls := [ProcessFrontMatter 0, ProcessFrontMatter 0]\<rparr>) 1
      = Returns ((vaultOf (js ''notes/x.md'') (?fm ''doing''))
                   \<lparr>calls := [ProcessFrontMatter 0, ProcessFrontMatter 0,
                              ProcessFrontMatter 0, ProcessFrontMatter 0]\<rparr>)"
    unfolding syncBoard_def r option.case parse_duplicate
    by (simp add: sync_eval hostBoard_def)
  show ?thesis unfolding 1 stateOf.simps 2 by (simp add: r callsMade_def)
qed


lemma parse_doFirst:
  "parseBoardContent (js ''## '' @ doFirst @ js ''\<newline>- [[x]]\<newline>'')
     = [\<lparr>linkPath = js ''x'', columnName = doFirst\<rparr>]"
  by (simp add: parser_eval doFirst_def QUADRANT_MAP_def)

lemma writesSucceedDuring_hostBoard: "writesSucceedDuring (hostBoard content) s us"
  by (induction us arbitrary: s) (simp_all add: hostBoard_def hostOk_def split: option.splits)

text \<open>
  C1, amended, on a board with the note \<open>x\<close> under the fourth quadrant column: the first
  run writes status and flags, the second run returns the same state.
\<close>

theorem syncBoard_idempotent_witness:
  "syncBoard (hostBoard (js ''## '' @ doFirst @ js ''\<newline>- [[x]]\<newline>''))
     (stateOf (syncBoard (hostBoard (js ''## '' @ doFirst @ js ''\<newline>- [[x]]\<newline>''))
        (vaultOf (js ''tasks/x.md'') None) 1)) 1
   = Returns (stateOf (syncBoard (hostBoard (js ''## '' @ doFirst @ js ''\<newline>- [[x]]\<newline>''))
        (vaultOf (js ''tasks/x.md'') None) 1))
   \<and> stateOf (syncBoard (hostBoard (js ''## '' @ doFirst @ js ''\<newline>- [[x]]\<newline>''))
        (vaultOf (js ''tasks/x.md'') None) 1)
     = (vaultOf (js ''tasks/x.md'')
          (Some [js ''status'' \<mapsto> JString (js ''backlog''), js ''urgent'' \<mapsto> JBool True,
                 js ''important'' \<mapsto> JBool True]))
         \<lparr>calls := [ProcessFrontMatter 0]\<rparr>"
proof -
  let ?c = "js ''## '' @ doFirst @ js ''\<newline>- [[x]]\<newline>''"
  let ?h = "hostBoard ?c"
  let ?s = "vaultOf (js ''tasks/x.md'') None"
  have r: "cachedRead ?h t b = Some ?c" for t b
    by (simp add: cachedRead_def hostBoard_def)
  have q: "isQuadrant doFirst" "doFirst \<notin> set Object_prototype" "status doFirst = js ''backlog''"
    "q_urgent doFirst = JBool True" "q_important doFirst = JBool True"
    by (simp_all add: doFirst_def isQuadrant_def status_def q_urgent_def q_important_def
        QUADRANT_MAP_def Object_prototype_def js_def)
  have c: "consistentBoard ?h (statusPropertyName (settings ?s)) (parseBoardContent ?c)"
    unfolding parse_doFirst using q(2)
    by (simp add: consistentBoard_def plainColumn_def compatible_def vaultOf_def js_def)
  have 1: "syncBoard ?h ?s 1
     = Returns ((vaultOf (js ''tasks/x.md'')
          (Some [js ''status'' \<mapsto> JString (js ''backlog''), js ''urgent'' \<mapsto> JBool True,
                 js ''important'' \<mapsto> JBool True]))
         \<lparr>calls := [ProcessFrontMatter 0]\<rparr>)"
    unfolding syncBoard_def r option.case parse_doFirst
    by (simp add: updateNote_def updateNoteTry_def getFirstLinkpathDest_def getFileCache_def
        needsUpdate_def fieldOrNull_def getField_def setField_def writeFields_def
        processFrontMatter_def resolvePlacement_def unarchiveNote_def parent_path_def called_def log_def notify_def ARCHIVE_STATUSES_def q
        hostOk_def hostBoard_def vaultOf_def Let_def dirname_def endsWith_def js_def)
  from syncBoard_idempotent[OF r r writesSucceedDuring_hostBoard c, of 1]
  show ?thesis unfolding 1 by simp
qed

section \<open>The suppression flag\<close>

lemma onModify_suppressed: "isUpdating s \<Longrightarrow> onModify (s, ts) f = (s, ts)"
  by (simp add: onModify_def)

lemma run_modifies_suppressed:
  "isUpdating s \<Longrightarrow> run h (s, ts) (map Modify fs) = (s, ts)"
  by (induction fs) (simp_all add: run_def onModify_suppressed)

lemma run_append: "run h w (xs @ ys) = run h (run h w xs) ys"
  by (simp add: run_def)

lemma resume_update:
  "step h (s, [AwaitsUpdate (u # us)]) (Resume 0)
     = (stateOf (updateNote h s (linkPath u) (columnName u)), [AwaitsUpdate us])"
proof -
  obtain s1 where "updateNote h s (linkPath u) (columnName u) = Returns s1"
    using updateNote_Returns by blast
  then show ?thesis by simp
qed

lemma resume_last: "step h (s, [AwaitsUpdate []]) (Resume 0) = (s\<lparr>isUpdating := False\<rparr>, [])"
  by simp

lemma foldl_updateNote_isUpdating:
  "isUpdating (foldl (\<lambda>t u. stateOf (updateNote h t (linkPath u) (columnName u))) s us)
     = isUpdating s"
  by (induction us arbitrary: s) (simp_all add: updateNote_cache(3))

lemma run_bursts:
  "isUpdating s \<Longrightarrow> length bursts \<le> length us \<Longrightarrow>
   run h (s, [AwaitsUpdate us]) (concat (map (\<lambda>fs. map Modify fs @ [Resume 0]) bursts))
     = (foldl (\<lambda>t u. stateOf (updateNote h t (linkPath u) (columnName u))) s
          (take (length bursts) us),
        [AwaitsUpdate (drop (length bursts) us)])"
proof (induction bursts arbitrary: s us)
  case Nil
  show ?case by (simp add: run_def)
next
  case (Cons fs bursts)
  then obtain u us1 where us: "us = u # us1" by (cases us) auto
  let ?s1 = "stateOf (updateNote h s (linkPath u) (columnName u))"
  have 1: "run h (s, [AwaitsUpdate us]) (map Modify fs @ [Resume 0]) = (?s1, [AwaitsUpdate us1])"
    unfolding run_append run_modifies_suppressed[OF Cons.prems(1)] us
    by (simp only: run_def foldl.simps resume_update)
  have 2: "isUpdating ?s1" using Cons.prems(1) by (simp add: updateNote_cache(3))
  have 3: "length bursts \<le> length us1" using Cons.prems(2) us by simp
  have "run h (s, [AwaitsUpdate us])
          (concat (map (\<lambda>fs. map Modify fs @ [Resume 0]) (fs # bursts)))
        = run h (?s1, [AwaitsUpdate us1]) (concat (map (\<lambda>fs. map Modify fs @ [Resume 0]) bursts))"
    using 1 by (simp add: run_append del: append_assoc)
  also note Cons.IH[OF 2 3]
  finally show ?case by (simp add: us)
qed


lemma run_to_end:
  assumes "isUpdating s" "length bursts = Suc (length us)"
  shows "run h (s, [AwaitsUpdate us]) (concat (map (\<lambda>fs. map Modify fs @ [Resume 0]) bursts))
     = ((foldl (\<lambda>t u. stateOf (updateNote h t (linkPath u) (columnName u))) s us)
          \<lparr>isUpdating := False\<rparr>, [])"
proof -
  let ?t = "foldl (\<lambda>t u. stateOf (updateNote h t (linkPath u) (columnName u))) s us"
  from assms(2) obtain bs fs where b: "bursts = bs @ [fs]" "length bs = length us"
    by (metis length_Suc_conv_rev)
  have 1: "run h (s, [AwaitsUpdate us]) (concat (map (\<lambda>fs. map Modify fs @ [Resume 0]) bs))
      = (?t, [AwaitsUpdate []])"
    using run_bursts[OF assms(1), of bs us h] b(2) by simp
  have 2: "isUpdating ?t" using assms(1) by (simp add: foldl_updateNote_isUpdating)
  have 3: "run h (?t, [AwaitsUpdate []]) (map Modify fs @ [Resume 0]) = (?t\<lparr>isUpdating := False\<rparr>, [])"
    unfolding run_append run_modifies_suppressed[OF 2]
    by (simp only: run_def foldl.simps resume_last)
  show ?thesis unfolding b(1) using 1 3 by (simp add: run_append del: append_assoc)
qed

lemma syncBoard_clears_flag:
  assumes "cachedRead h s b = Some content" "parseBoardContent content \<noteq> []"
  shows "syncBoard h s b
     = Returns ((foldl (\<lambda>t u. stateOf (updateNote h t (linkPath u) (columnName u)))
                  (s\<lparr>isUpdating := True\<rparr>) (parseBoardContent content))\<lparr>isUpdating := False\<rparr>)"
  using assms by (simp add: syncBoard_def updateAll_foldl)

lemma run_is_syncBoard:
  assumes "cachedRead h s b = Some content" "parseBoardContent content \<noteq> []"
    "length bursts = Suc (length (parseBoardContent content))"
  shows "run h (s, [AwaitsRead b])
           (Resume 0 # concat (map (\<lambda>fs. map Modify fs @ [Resume 0]) bursts))
     = (stateOf (syncBoard h s b), [])"
proof -
  have 1: "step h (s, [AwaitsRead b]) (Resume 0)
      = (s\<lparr>isUpdating := True\<rparr>, [AwaitsUpdate (parseBoardContent content)])"
    using assms(1,2) by (simp add: Let_def)
  have 2: "isUpdating (s\<lparr>isUpdating := True\<rparr>)" by simp
  have "run h (s, [AwaitsRead b])
           (Resume 0 # concat (map (\<lambda>fs. map Modify fs @ [Resume 0]) bursts))
      = run h (s\<lparr>isUpdating := True\<rparr>, [AwaitsUpdate (parseBoardContent content)])
          (concat (map (\<lambda>fs. map Modify fs @ [Resume 0]) bursts))"
    unfolding run_def foldl.simps 1 ..
  also note run_to_end[OF 2 assms(3)]
  finally show ?thesis by (simp add: syncBoard_clears_flag[OF assms(1,2)])
qed






end
